theory Spec2Isabelle
  imports
    Complex_Main
    "HOL-Library.Multiset"
    "HOL-Library.Char_ord"
    "HOL-Library.List_Lexorder"
    "HOL-Library.Product_Lexorder"
    "HOL-Library.Sublist"
begin

section \<open>Data model of \<open>update_just_read_feed.ts\<close>\<close>

text \<open>
  Optional fields (\<open>f?: T\<close>, \<open>T | null\<close>) are \<open>T option\<close>. Strings are \<open>string\<close>.
  Dates are millisecond timestamps (\<open>int\<close>). Word counts are integers. Relevance scores
  are finite JavaScript numbers, modelled as \<open>real\<close> (no NaN, no infinities), on which the
  sign of \<open>a - b\<close> is the order of \<open>a\<close> and \<open>b\<close>.
  Field names follow the source; where two interfaces share a field name the field carries
  a short prefix, and \<open>id\<close>/\<open>type\<close> of a Candidate are \<open>cid\<close>/\<open>ctype\<close>.
\<close>

datatype error =
    RedisClientNotAvailable   \<comment> \<open>\<open>throw new Error('Redis client not available')\<close>\<close>
  | TypeError                 \<comment> \<open>reading a property of \<open>undefined\<close>\<close>
  | CollaboratorError string  \<comment> \<open>a rejected promise of an imported service\<close>

record SubscriptionRef =
  sub_name :: string
  sub_type :: string

record Candidate =
  cid :: string
  title :: string
  url :: string
  ctype :: string
  thumbnail :: "string option"
  previewContent :: "string option"
  languageCode :: string
  author :: "string option"
  dir :: string
  date :: int
  topic :: "string option"
  wordCount :: int
  siteIcon :: "string option"
  siteName :: "string option"
  folder :: "string option"
  score :: "real option"
  publishedAt :: "int option"
  subscription :: "SubscriptionRef option"

record Item =
  item_id :: string
  item_type :: string

record Section =
  items :: "Item list"
  layout :: string

text \<open>
  The entities \<open>LibraryItem\<close>, \<open>PublicItem\<close>, \<open>Subscription\<close> and \<open>User\<close> are imported
  by the job; only the fields the job reads are modelled.
\<close>

record LibraryItem =
  li_id :: string
  li_title :: string
  li_originalUrl :: string
  li_thumbnail :: "string option"
  li_description :: "string option"
  li_itemLanguage :: "string option"
  li_author :: "string option"
  li_directionality :: "string option"
  li_createdAt :: int
  li_topic :: "string option"
  li_wordCount :: int
  li_siteName :: "string option"
  li_siteIcon :: "string option"
  li_folder :: "string option"
  li_score :: "real option"
  li_publishedAt :: "int option"
  li_subscription :: "string option"

record PublicItem =
  pi_id :: string
  pi_title :: string
  pi_url :: string
  pi_thumbnail :: "string option"
  pi_previewContent :: "string option"
  pi_languageCode :: "string option"
  pi_author :: "string option"
  pi_dir :: "string option"
  pi_createdAt :: int
  pi_topic :: "string option"
  pi_wordCount :: int
  pi_siteIcon :: "string option"
  pi_publishedAt :: "int option"
  pi_source_name :: string
  pi_source_type :: string

record Subscription =
  s_name :: string
  s_url :: "string option"
  s_type :: string

record User =
  u_id :: string

text \<open>The \<open>Feature\<close> bundle sent to the scoring service, and the request that carries it.\<close>

record Feature =
  f_title :: string
  f_has_thumbnail :: bool
  f_has_site_icon :: bool
  f_saved_at :: int
  f_site :: "string option"
  f_language :: string
  f_directionality :: string
  f_folder :: "string option"
  f_subscription_type :: "string option"
  f_author :: "string option"
  f_word_count :: int
  f_published_at :: "int option"

record ScoreRequest =
  user_id :: string
  item_features :: "string \<rightharpoonup> Feature"

type_synonym ScoreApiResponse = "string \<rightharpoonup> real"

section \<open>JavaScript operators on optional strings\<close>

text \<open>\<open>x || undefined\<close>: an absent or empty string becomes absent.\<close>

definition orUndefined :: "string option \<Rightarrow> string option" where
  "orUndefined x = (case x of None \<Rightarrow> None | Some s \<Rightarrow> if s = [] then None else Some s)"

text \<open>\<open>x || d\<close>: an absent or empty string becomes the default \<open>d\<close>.\<close>

definition orDefault :: "string option \<Rightarrow> string \<Rightarrow> string" where
  "orDefault x d = (case x of None \<Rightarrow> d | Some s \<Rightarrow> if s = [] then d else s)"

text \<open>\<open>!!x\<close>: present and non-empty.\<close>

definition truthy :: "string option \<Rightarrow> bool" where
  "truthy x = (case x of None \<Rightarrow> False | Some s \<Rightarrow> s \<noteq> [])"

section \<open>Candidate Selector\<close>

text \<open>\<open>Array.prototype.find\<close> is \<open>List.find\<close>: the first element that satisfies the test.\<close>

definition subscriptionRef :: "Subscription \<Rightarrow> SubscriptionRef" where
  "subscriptionRef s = \<lparr>sub_name = s_name s, sub_type = s_type s\<rparr>"

text \<open>
  \<open>lanaugeToCode\<close> is an imported helper; it is a parameter of the model.
\<close>

definition libraryItemToCandidate ::
  "(string \<Rightarrow> string) \<Rightarrow> LibraryItem \<Rightarrow> Subscription list \<Rightarrow> Candidate" where
  "libraryItemToCandidate lanaugeToCode item subscriptions =
     \<lparr>cid = li_id item,
      title = li_title item,
      url = li_originalUrl item,
      ctype = ''library_item'',
      thumbnail = orUndefined (li_thumbnail item),
      previewContent = orUndefined (li_description item),
      languageCode = lanaugeToCode (orDefault (li_itemLanguage item) ''English''),
      author = orUndefined (li_author item),
      dir = orDefault (li_directionality item) ''ltr'',
      date = li_createdAt item,
      topic = li_topic item,
      wordCount = li_wordCount item,
      siteIcon = orUndefined (li_siteIcon item),
      siteName = orUndefined (li_siteName item),
      folder = li_folder item,
      score = li_score item,
      publishedAt = li_publishedAt item,
      subscription = map_option subscriptionRef
        (find (\<lambda>s. Some (s_name s) = li_subscription item \<or> s_url s = li_subscription item)
           subscriptions)\<rparr>"

definition publicItemToCandidate :: "PublicItem \<Rightarrow> Candidate" where
  "publicItemToCandidate item =
     \<lparr>cid = pi_id item,
      title = pi_title item,
      url = pi_url item,
      ctype = ''public_item'',
      thumbnail = pi_thumbnail item,
      previewContent = pi_previewContent item,
      languageCode = orDefault (pi_languageCode item) ''en'',
      author = pi_author item,
      dir = orDefault (pi_dir item) ''ltr'',
      date = pi_createdAt item,
      topic = pi_topic item,
      wordCount = pi_wordCount item,
      siteIcon = pi_siteIcon item,
      siteName = None,
      folder = None,
      score = None,
      publishedAt = pi_publishedAt item,
      subscription = Some \<lparr>sub_name = pi_source_name item, sub_type = pi_source_type item\<rparr>\<rparr>"

text \<open>
  The imported services are the collaborators of one job run. Each returns a value or
  fails (a rejected promise, \<open>Inl\<close>); \<open>await\<close> propagates the failure.
  \<open>searchLibraryItems\<close> is called with the fixed arguments
  \<open>{size: 100, includeContent: false, query: '-is:seen wordsCount:>0'}\<close> and the user id,
  \<open>findUnseenPublicItems\<close> with the user id and \<open>{limit: 100}\<close>; what they return for these
  arguments is the field's value.
\<close>

record Services =
  findActiveUser :: "string \<Rightarrow> error + User option"
  searchLibraryItems :: "string \<Rightarrow> error + LibraryItem list"
  findSubscriptionsByNames :: "string \<Rightarrow> string list \<Rightarrow> error + Subscription list"
  findUnseenPublicItems :: "string \<Rightarrow> error + PublicItem list"
  getScores :: "ScoreRequest \<Rightarrow> error + ScoreApiResponse"
  lanaugeToCode :: "string \<Rightarrow> string"

definition subscriptionNames :: "LibraryItem list \<Rightarrow> string list" where
  "subscriptionNames libraryItems =
     map (\<lambda>item. the (li_subscription item))
       (filter (\<lambda>item. truthy (li_subscription item)) libraryItems)"

definition selectCandidates :: "Services \<Rightarrow> User \<Rightarrow> error + Candidate list" where
  "selectCandidates sv user =
     (let userId = u_id user in
      case searchLibraryItems sv userId of
        Inl e \<Rightarrow> Inl e
      | Inr libraryItems \<Rightarrow>
          (case findSubscriptionsByNames sv userId (subscriptionNames libraryItems) of
             Inl e \<Rightarrow> Inl e
           | Inr subscriptions \<Rightarrow>
               (let privateCandidates =
                      take 70 (map (\<lambda>item. libraryItemToCandidate (lanaugeToCode sv) item subscriptions)
                                 libraryItems);
                    privateCandidatesSize = length privateCandidates
                in case findUnseenPublicItems sv userId of
                     Inl e \<Rightarrow> Inl e
                   | Inr publicItems \<Rightarrow>
                       (let publicCandidates =
                              take (100 - privateCandidatesSize)
                                (map publicItemToCandidate publicItems)
                        in Inr (privateCandidates @ publicCandidates)))))"

section \<open>Ranker\<close>

definition featureOf :: "Candidate \<Rightarrow> Feature" where
  "featureOf item =
     \<lparr>f_title = title item,
      f_has_thumbnail = truthy (thumbnail item),
      f_has_site_icon = truthy (siteIcon item),
      f_saved_at = date item,
      f_site = siteName item,
      f_language = languageCode item,
      f_directionality = dir item,
      f_folder = folder item,
      f_subscription_type = map_option sub_type (subscription item),
      f_author = author item,
      f_word_count = wordCount item,
      f_published_at = publishedAt item\<rparr>"

text \<open>
  The records \<open>item_features\<close>, \<open>preCalculatedScores\<close> and \<open>scores\<close> are plain
  JavaScript objects, so the properties every object inherits from \<open>Object.prototype\<close>
  show through: \<open>obj[k]\<close> is the own property \<open>k\<close> when there is one, else the
  inherited member when \<open>k\<close> is one of the names below (a function, or for
  \<open>__proto__\<close> the prototype object), else \<open>undefined\<close>; and \<open>obj['__proto__'] = v\<close>
  calls the inherited setter and creates no own property. The maps of the model hold the
  own properties.
\<close>

definition objectPrototypeKeys :: "string list" where
  "objectPrototypeKeys =
     [''constructor'', ''__defineGetter__'', ''__defineSetter__'', ''hasOwnProperty'',
      ''__lookupGetter__'', ''__lookupSetter__'', ''isPrototypeOf'', ''propertyIsEnumerable'',
      ''toString'', ''valueOf'', ''__proto__'', ''toLocaleString'']"

text \<open>\<open>acc[k] = v\<close> on a plain object.\<close>

definition assign :: "(string \<rightharpoonup> 'v) \<Rightarrow> string \<Rightarrow> 'v \<Rightarrow> (string \<rightharpoonup> 'v)" where
  "assign acc k v = (if k = ''__proto__'' then acc else acc(k \<mapsto> v))"

text \<open>The two \<open>reduce\<close> calls: a later candidate with the same id overwrites the entry.\<close>

definition itemFeatures :: "Candidate list \<Rightarrow> (string \<rightharpoonup> Feature)" where
  "itemFeatures unscoredCandidates =
     foldl (\<lambda>acc item. assign acc (cid item) (featureOf item)) Map.empty unscoredCandidates"

definition preCalculatedScores :: "Candidate list \<Rightarrow> ScoreApiResponse" where
  "preCalculatedScores candidates =
     foldl (\<lambda>acc item. assign acc (cid item) (the (score item))) Map.empty
       (filter (\<lambda>item. score item \<noteq> None) candidates)"

definition scoreRequest :: "string \<Rightarrow> Candidate list \<Rightarrow> ScoreRequest" where
  "scoreRequest userId candidates =
     \<lparr>user_id = userId,
      item_features = itemFeatures (filter (\<lambda>item. score item = None) candidates)\<rparr>"

text \<open>
  \<open>{ ...preCalculatedScores, ...newScores }\<close> copies the own properties, an entry of
  \<open>newScores\<close> winning.
\<close>

definition mergedScores :: "Candidate list \<Rightarrow> ScoreApiResponse \<Rightarrow> ScoreApiResponse" where
  "mergedScores candidates newScores = preCalculatedScores candidates ++ newScores"

text \<open>
  \<open>scores[a.id] || 0\<close>: the own number (\<open>0 || 0\<close> is \<open>0\<close>); an inherited member, which
  is truthy, when the id names one and has no own entry; \<open>0\<close> otherwise.
\<close>

datatype jsvalue = JNumber real | JInherited

definition scoreOrZero :: "ScoreApiResponse \<Rightarrow> Candidate \<Rightarrow> jsvalue" where
  "scoreOrZero scores a =
     (case scores (cid a) of
        Some v \<Rightarrow> JNumber v
      | None \<Rightarrow> if cid a \<in> set objectPrototypeKeys then JInherited else JNumber 0)"

text \<open>
  The comparator \<open>scoreA - scoreB\<close>: the difference of two numbers, and \<open>NaN\<close> (\<open>None\<close>)
  when an operand is an inherited member.
\<close>

definition compareScores :: "ScoreApiResponse \<Rightarrow> Candidate \<Rightarrow> Candidate \<Rightarrow> real option" where
  "compareScores scores a b =
     (case (scoreOrZero scores a, scoreOrZero scores b) of
        (JNumber scoreA, JNumber scoreB) \<Rightarrow> Some (scoreA - scoreB)
      | _ \<Rightarrow> None)"

text \<open>
  \<open>Array.prototype.sort(comparefn)\<close>. ECMAScript reads a \<open>NaN\<close> result of the comparator
  as \<open>+0\<close> and requires a stable sort when the comparator is consistent; that order is
  unique, and it is the one of the stable insertion sort below. A comparator that
  returns \<open>NaN\<close> is not consistent and the order is then left to the engine. The
  insertion sort returns an array as it is when \<open>comparefn(x, y)\<close> is negative, zero or
  \<open>NaN\<close> for every element \<open>x\<close> and every later element \<open>y\<close>; so does V8 (Node.js)
  when in addition \<open>comparefn(y, x)\<close> is not negative for neighbours \<open>x\<close>, \<open>y\<close>: the
  array is then one ascending run and nothing is moved.
\<close>

definition sortCompare :: "('a \<Rightarrow> 'a \<Rightarrow> real option) \<Rightarrow> 'a \<Rightarrow> 'a \<Rightarrow> real" where
  "sortCompare comparefn x y = (case comparefn x y of None \<Rightarrow> 0 | Some v \<Rightarrow> v)"

primrec insertBy :: "('a \<Rightarrow> 'a \<Rightarrow> real option) \<Rightarrow> 'a \<Rightarrow> 'a list \<Rightarrow> 'a list" where
  "insertBy comparefn x [] = [x]"
| "insertBy comparefn x (y # ys) =
     (if sortCompare comparefn x y \<le> 0 then x # y # ys else y # insertBy comparefn x ys)"

definition arraySort :: "('a \<Rightarrow> 'a \<Rightarrow> real option) \<Rightarrow> 'a list \<Rightarrow> 'a list" where
  "arraySort comparefn xs = foldr (insertBy comparefn) xs []"

text \<open>
  \<open>rankCandidates\<close> returns the list of requests it sent to the scoring service together
  with its outcome.
\<close>

definition rankCandidates ::
  "Services \<Rightarrow> string \<Rightarrow> Candidate list \<Rightarrow> ScoreRequest list \<times> (error + Candidate list)" where
  "rankCandidates sv userId candidates =
     (if length candidates \<le> 10 then ([], Inr candidates)
      else
        (let data = scoreRequest userId candidates in
         case getScores sv data of
           Inl e \<Rightarrow> ([data], Inl e)
         | Inr newScores \<Rightarrow>
             (let scores = mergedScores candidates newScores
              in ([data], Inr (arraySort (compareScores scores) candidates)))))"

section \<open>Mixer\<close>

text \<open>
  \<open>wordCounts.sort((a, b) => a - b)\<close> is the numeric sort; the median is the element at
  index \<open>Math.floor(wordCounts.length / 2)\<close>, which is \<open>undefined\<close> (\<open>None\<close>) for an empty
  list.
\<close>

definition medianWordCount :: "Candidate list \<Rightarrow> int option" where
  "medianWordCount rankedFeedItems =
     (let wordCounts = sort (map wordCount rankedFeedItems);
          i = length wordCounts div 2
      in if i < length wordCounts then Some (wordCounts ! i) else None)"

text \<open>
  The loop that fills \<open>shortItems\<close> and \<open>longItems\<close> by \<open>push\<close>; the state is the pair
  \<open>(shortItems, longItems)\<close>. A comparison with \<open>undefined\<close> is false.
\<close>

definition belowMedian :: "int option \<Rightarrow> Candidate \<Rightarrow> bool" where
  "belowMedian m item = (case m of None \<Rightarrow> False | Some v \<Rightarrow> wordCount item < v)"

definition splitItems :: "Candidate list \<Rightarrow> Candidate list \<times> Candidate list" where
  "splitItems rankedFeedItems =
     foldl (\<lambda>(shortItems, longItems) item.
              if belowMedian (medianWordCount rankedFeedItems) item
              then (shortItems @ [item], longItems)
              else (shortItems, longItems @ [item]))
       ([], []) rankedFeedItems"

definition shortItems :: "Candidate list \<Rightarrow> Candidate list" where
  "shortItems rankedFeedItems = fst (splitItems rankedFeedItems)"

definition longItems :: "Candidate list \<Rightarrow> Candidate list" where
  "longItems rankedFeedItems = snd (splitItems rankedFeedItems)"

definition emptyBatches :: "Candidate list \<Rightarrow> Candidate list list" where
  "emptyBatches rankedFeedItems = replicate (length rankedFeedItems div 10) []"

text \<open>
  \<open>===\<close> on optional fields: two absent values are equal, so \<open>None = None\<close> counts as a
  shared author, site name or subscription name.
\<close>

definition titleCount :: "Candidate list \<Rightarrow> Candidate \<Rightarrow> nat" where
  "titleCount batch item = length (filter (\<lambda>i. title i = title item) batch)"

definition authorCount :: "Candidate list \<Rightarrow> Candidate \<Rightarrow> nat" where
  "authorCount batch item = length (filter (\<lambda>i. author i = author item) batch)"

definition siteCount :: "Candidate list \<Rightarrow> Candidate \<Rightarrow> nat" where
  "siteCount batch item = length (filter (\<lambda>i. siteName i = siteName item) batch)"

definition subscriptionCount :: "Candidate list \<Rightarrow> Candidate \<Rightarrow> nat" where
  "subscriptionCount batch item =
     length (filter (\<lambda>i. map_option sub_name (subscription i) =
                          map_option sub_name (subscription item)) batch)"

definition checkConstraints :: "Candidate list \<Rightarrow> Candidate \<Rightarrow> bool" where
  "checkConstraints batch item =
     (titleCount batch item < 1 \<and> authorCount batch item < 2 \<and>
      siteCount batch item < 2 \<and> subscriptionCount batch item < 2)"

text \<open>
  \<open>for (const batch of batches) { if (ok batch) { batch.push(item); break } }\<close>:
  the item is appended to the first batch that passes the test; \<open>None\<close> when the loop
  ends without a push.
\<close>

fun pushFirst ::
  "(Candidate list \<Rightarrow> bool) \<Rightarrow> Candidate \<Rightarrow> Candidate list list \<Rightarrow> Candidate list list option" where
  "pushFirst ok item [] = None"
| "pushFirst ok item (batch # batches) =
     (if ok batch then Some ((batch @ [item]) # batches)
      else map_option ((#) batch) (pushFirst ok item batches))"

definition pushConstrained :: "Candidate \<Rightarrow> Candidate list list \<Rightarrow> Candidate list list option" where
  "pushConstrained item batches =
     pushFirst (\<lambda>batch. length batch < 5 \<and> checkConstraints batch item) item batches"

definition pushOverflow :: "Candidate \<Rightarrow> Candidate list list \<Rightarrow> Candidate list list option" where
  "pushOverflow item batches = pushFirst (\<lambda>batch. length batch < 10) item batches"

text \<open>One iteration of the outer loop of \<open>distributeItems\<close>; \<open>added\<close> is the first \<open>Some\<close>.\<close>

definition placeItem :: "Candidate list list \<Rightarrow> Candidate \<Rightarrow> Candidate list list" where
  "placeItem batches item =
     (case pushConstrained item batches of
        Some batches' \<Rightarrow> batches'
      | None \<Rightarrow>
          (case pushOverflow item batches of
             Some batches' \<Rightarrow> batches'
           | None \<Rightarrow> batches))"

definition distributeItems :: "Candidate list \<Rightarrow> Candidate list list \<Rightarrow> Candidate list list" where
  "distributeItems items' batches = foldl placeItem batches items'"

text \<open>The batches after \<open>distributeItems(longItems, batches)\<close> and \<open>distributeItems(shortItems, batches)\<close>.\<close>

definition mixBatches :: "Candidate list \<Rightarrow> Candidate list list" where
  "mixBatches rankedFeedItems =
     distributeItems (shortItems rankedFeedItems)
       (distributeItems (longItems rankedFeedItems) (emptyBatches rankedFeedItems))"

definition itemRef :: "Candidate \<Rightarrow> Item" where
  "itemRef c = \<lparr>item_id = cid c, item_type = ctype c\<rparr>"

text \<open>
  \<open>batch[i].id\<close> throws a TypeError when \<open>batch[i]\<close> is \<open>undefined\<close>, that is, when
  \<open>i\<close> is not an index of the batch.
\<close>

definition longSection :: "Candidate list \<Rightarrow> nat \<Rightarrow> error + Section" where
  "longSection batch i =
     (if i < length batch then Inr \<lparr>items = [itemRef (batch ! i)], layout = ''long''\<rparr>
      else Inl TypeError)"

definition quickLinksSection :: "Candidate list \<Rightarrow> Section" where
  "quickLinksSection batch = \<lparr>items = map itemRef (drop 5 batch), layout = ''quick links''\<rparr>"

text \<open>Running a list of fallible steps in order, stopping at the first failure.\<close>

fun collect :: "(error + 'a) list \<Rightarrow> error + 'a list" where
  "collect [] = Inr []"
| "collect (Inl e # rs) = Inl e"
| "collect (Inr x # rs) = (case collect rs of Inl e \<Rightarrow> Inl e | Inr xs \<Rightarrow> Inr (x # xs))"

definition batchSections :: "Candidate list \<Rightarrow> error + Section list" where
  "batchSections batch =
     (case collect (map (longSection batch) [0..<5]) of
        Inl e \<Rightarrow> Inl e
      | Inr longs \<Rightarrow> Inr (longs @ [quickLinksSection batch]))"

definition mixFeedItems :: "Candidate list \<Rightarrow> error + Section list" where
  "mixFeedItems rankedFeedItems =
     (case collect (map batchSections (mixBatches rankedFeedItems)) of
        Inl e \<Rightarrow> Inl e
      | Inr sectionss \<Rightarrow> Inr (concat sectionss))"

section \<open>Feed Store\<close>

text \<open>
  A Redis sorted set holds each member once, with one score, ranked by score and, at equal
  scores, by the member's bytes. It is modelled by the list of its \<open>(score, member)\<close>
  pairs in ascending rank, which is the ascending order of the pairs. The four commands
  the job issues follow the Redis command reference:
  \<^item> \<open>ZADD key s m ...\<close> sets the score of each member in turn, replacing an older score;
  \<^item> \<open>ZREMRANGEBYRANK key start stop\<close> removes the ranks \<open>start..stop\<close>, a negative
    index counting from the highest rank (\<open>-1\<close> is the last element);
  \<^item> \<open>ZREMRANGEBYSCORE key -inf max\<close> removes the members whose score is at most \<open>max\<close>;
  \<^item> \<open>ZREVRANGEBYSCORE key max -inf WITHSCORES LIMIT 0 count\<close> lists, from the highest
    rank down, the members whose score is at most \<open>max\<close> (\<open>+inf\<close>: all), at most
    \<open>count\<close> of them (a negative count: all).
\<close>

type_synonym zset = "(int \<times> string) list"

type_synonym redis = "string \<Rightarrow> zset"

definition zadd1 :: "zset \<Rightarrow> int \<times> string \<Rightarrow> zset" where
  "zadd1 z sm = insort sm (filter (\<lambda>e. snd e \<noteq> snd sm) z)"

definition zadd :: "zset \<Rightarrow> (int \<times> string) list \<Rightarrow> zset" where
  "zadd z scoreMembers = foldl zadd1 z scoreMembers"

definition zremrangebyrank :: "zset \<Rightarrow> int \<Rightarrow> int \<Rightarrow> zset" where
  "zremrangebyrank z start stop =
     (let llen = int (length z);
          start1 = (if start < 0 then llen + start else start);
          end1 = (if stop < 0 then llen + stop else stop);
          start2 = (if start1 < 0 then 0 else start1)
      in if start2 > end1 \<or> start2 \<ge> llen then z
         else (let end2 = (if end1 \<ge> llen then llen - 1 else end1)
               in take (nat start2) z @ drop (nat end2 + 1) z))"

definition zremrangebyscore :: "zset \<Rightarrow> int \<Rightarrow> zset" where
  "zremrangebyscore z mx = filter (\<lambda>e. \<not> fst e \<le> mx) z"

definition zrevrangebyscore :: "zset \<Rightarrow> int option \<Rightarrow> int \<Rightarrow> zset" where
  "zrevrangebyscore z mx cnt =
     (let hits = rev (filter (\<lambda>e. case mx of None \<Rightarrow> True | Some m \<Rightarrow> fst e \<le> m) z)
      in if cnt < 0 then hits else take (nat cnt) hits)"

definition redisKey :: "string \<Rightarrow> string" where
  "redisKey userId = ''just-read-feed:'' @ userId"

definition MAX_FEED_ITEMS :: int where
  "MAX_FEED_ITEMS = 500"

record FeedEntry =
  entry_member :: Section
  entry_score :: int

text \<open>
  \<open>redisDataSource.redisClient\<close> is \<open>None\<close> when the client is not available, else the
  contents of the Redis instance. \<open>JSON.parse\<close> and \<open>JSON.stringify\<close> are parameters.
  \<open>maxScore ? maxScore - 1 : '+inf'\<close>: an absent and a zero \<open>maxScore\<close> both give \<open>+inf\<close>.
\<close>

definition getJustReadFeedSections ::
  "(string \<Rightarrow> Section) \<Rightarrow> redis option \<Rightarrow> string \<Rightarrow> int \<Rightarrow> int option \<Rightarrow> error + FeedEntry list" where
  "getJustReadFeedSections parse redisClient userId limit maxScore =
     (case redisClient of
        None \<Rightarrow> Inl RedisClientNotAvailable
      | Some r \<Rightarrow>
          (let key = redisKey userId;
               results = zrevrangebyscore (r key)
                  (case maxScore of None \<Rightarrow> None
                   | Some m \<Rightarrow> if m = 0 then None else Some (m - 1))
                  limit
           in Inr (map (\<lambda>e. \<lparr>entry_member = parse (snd e), entry_score = fst e\<rparr>) results)))"

text \<open>
  \<open>Date.now()\<close> is read once for every section, in index order, and once more for
  \<open>zremrangebyscore\<close>: \<open>now k\<close> is the \<open>k\<close>-th reading of the clock during the call
  (counted from 0). The pipeline runs the three commands in order. For an empty list of
  sections Redis rejects the \<open>ZADD\<close> without a score-member pair, the pipeline records
  the error and goes on: the set is the same after this step, as in the model.
\<close>

definition scoreMembers :: "(Section \<Rightarrow> string) \<Rightarrow> (nat \<Rightarrow> int) \<Rightarrow> Section list \<Rightarrow> (int \<times> string) list" where
  "scoreMembers stringify now sections =
     map (\<lambda>(index, section). (now index + int index + 86400000, stringify section))
       (enumerate 0 sections)"

definition appendSectionsToFeed ::
  "(Section \<Rightarrow> string) \<Rightarrow> (nat \<Rightarrow> int) \<Rightarrow> redis option \<Rightarrow> string \<Rightarrow> Section list
     \<Rightarrow> (error + unit) \<times> redis option" where
  "appendSectionsToFeed stringify now redisClient userId sections =
     (case redisClient of
        None \<Rightarrow> (Inl RedisClientNotAvailable, None)
      | Some r \<Rightarrow>
          (let key = redisKey userId;
               z1 = zadd (r key) (scoreMembers stringify now sections);
               z2 = zremrangebyrank z1 0 (- (MAX_FEED_ITEMS + 1));
               z3 = zremrangebyscore z2 (now (length sections))
           in (Inr (), Some (r(key := z3)))))"

section \<open>The job\<close>

text \<open>
  \<open>updateJustReadFeed\<close> returns its outcome (\<open>Inr ()\<close>: the promise resolves) and the
  Redis contents it leaves.
\<close>

definition updateJustReadFeed ::
  "Services \<Rightarrow> (Section \<Rightarrow> string) \<Rightarrow> (nat \<Rightarrow> int) \<Rightarrow> redis option \<Rightarrow> string
     \<Rightarrow> (error + unit) \<times> redis option" where
  "updateJustReadFeed sv stringify now redisClient userId =
     (case findActiveUser sv userId of
        Inl e \<Rightarrow> (Inl e, redisClient)
      | Inr None \<Rightarrow> (Inr (), redisClient)
      | Inr (Some user) \<Rightarrow>
          (case selectCandidates sv user of
             Inl e \<Rightarrow> (Inl e, redisClient)
           | Inr candidates \<Rightarrow>
               (case snd (rankCandidates sv userId candidates) of
                  Inl e \<Rightarrow> (Inl e, redisClient)
                | Inr rankedCandidates \<Rightarrow>
                    if length rankedCandidates = 0 then (Inr (), redisClient)
                    else
                      (case mixFeedItems rankedCandidates of
                         Inl e \<Rightarrow> (Inl e, redisClient)
                       | Inr rankedSections \<Rightarrow>
                           appendSectionsToFeed stringify now redisClient userId rankedSections))))"

section \<open>Predicates of the specification\<close>

text \<open>The origin of a candidate is its \<open>type\<close> field.\<close>

definition isPrivate :: "Candidate \<Rightarrow> bool" where
  "isPrivate c = (ctype c = ''library_item'')"

definition isPublic :: "Candidate \<Rightarrow> bool" where
  "isPublic c = (ctype c = ''public_item'')"

text \<open>
  The merged score of a candidate as the specification describes it: the fresh score the
  scoring service returned for the candidate's id, else the precomputed score that a
  candidate with this id carries (the last such candidate of the list), else zero.
\<close>

definition specMergedScore :: "Candidate list \<Rightarrow> ScoreApiResponse \<Rightarrow> Candidate \<Rightarrow> real" where
  "specMergedScore candidates newScores c =
     (case newScores (cid c) of
        Some v \<Rightarrow> v
      | None \<Rightarrow>
          (case find (\<lambda>d. cid d = cid c \<and> score d \<noteq> None) (rev candidates) of
             Some d \<Rightarrow> the (score d)
           | None \<Rightarrow> 0))"

text \<open>
  On the values of \<open>scores[id] || 0\<close>: the comparator's result for \<open>(a, b)\<close> is
  not positive (a number that is not positive, or \<open>NaN\<close>).
\<close>

definition notAbove :: "jsvalue \<Rightarrow> jsvalue \<Rightarrow> bool" where
  "notAbove a b = (case (a, b) of (JNumber x, JNumber y) \<Rightarrow> x - y \<le> 0 | _ \<Rightarrow> True)"

text \<open>The number of items that the batches hold.\<close>

definition placed :: "Candidate list list \<Rightarrow> nat" where
  "placed bs = sum_list (map length bs)"

text \<open>
  The value of \<open>batchSections\<close> on a batch that holds at least five items (lemma
  \<open>batchSections_full\<close>).
\<close>

definition fullBatchSections :: "Candidate list \<Rightarrow> Section list" where
  "fullBatchSections b =
     [\<lparr>items = [itemRef (b ! 0)], layout = ''long''\<rparr>,
      \<lparr>items = [itemRef (b ! 1)], layout = ''long''\<rparr>,
      \<lparr>items = [itemRef (b ! 2)], layout = ''long''\<rparr>,
      \<lparr>items = [itemRef (b ! 3)], layout = ''long''\<rparr>,
      \<lparr>items = [itemRef (b ! 4)], layout = ''long''\<rparr>,
      \<lparr>items = map itemRef (drop 5 b), layout = ''quick links''\<rparr>]"

text \<open>
  The order in which one Mixer run offers the items to \<open>placeItem\<close>, the batches as
  they are when the \<open>k\<close>-th item is offered, and whether the first loop of
  \<open>distributeItems\<close> (the constrained rule) places that item.
\<close>

definition mixOrder :: "Candidate list \<Rightarrow> Candidate list" where
  "mixOrder cs = longItems cs @ shortItems cs"

definition batchesBefore :: "Candidate list \<Rightarrow> nat \<Rightarrow> Candidate list list" where
  "batchesBefore cs k = distributeItems (take k (mixOrder cs)) (emptyBatches cs)"

definition placedConstrained :: "Candidate list \<Rightarrow> nat \<Rightarrow> bool" where
  "placedConstrained cs k = (pushConstrained (mixOrder cs ! k) (batchesBefore cs k) \<noteq> None)"

text \<open>
  The diversity bounds on a whole batch as claim C2 states them: no two members with
  different ids share a title, and no author, site name or subscription name occurs more
  than twice.
\<close>

definition claimedDiversity :: "Candidate list \<Rightarrow> bool" where
  "claimedDiversity batch =
     (list_all (\<lambda>x. list_all (\<lambda>y. cid x \<noteq> cid y \<longrightarrow> title x \<noteq> title y) batch) batch \<and>
      list_all (\<lambda>x. length (filter (\<lambda>m. author m = author x) batch) \<le> 2 \<and>
                     length (filter (\<lambda>m. siteName m = siteName x) batch) \<le> 2 \<and>
                     length (filter (\<lambda>m. map_option sub_name (subscription m) =
                                          map_option sub_name (subscription x)) batch) \<le> 2)
        batch)"

text \<open>
  A well-formed sorted set: ascending rank, every member once. A sequence of calls of
  \<open>appendSectionsToFeed\<close> for one user, each with its own clock. The entries that a
  retrieval is expected to return for appended sections, in append order.
\<close>

definition validZset :: "zset \<Rightarrow> bool" where
  "validZset z = (sorted z \<and> distinct (map snd z))"

fun appendAll ::
  "(Section \<Rightarrow> string) \<Rightarrow> string \<Rightarrow> redis option \<Rightarrow> ((nat \<Rightarrow> int) \<times> Section list) list
     \<Rightarrow> redis option" where
  "appendAll stringify userId redisClient [] = redisClient"
| "appendAll stringify userId redisClient ((now, sections) # calls) =
     appendAll stringify userId
       (snd (appendSectionsToFeed stringify now redisClient userId sections)) calls"

definition feedEntries :: "(nat \<Rightarrow> int) \<Rightarrow> Section list \<Rightarrow> FeedEntry list" where
  "feedEntries now sections =
     map (\<lambda>(index, section).
            \<lparr>entry_member = section, entry_score = now index + int index + 86400000\<rparr>)
       (enumerate 0 sections)"

text \<open>
  The capacity and expiry that claim C8 states, on the contents of a sorted set as a set
  of \<open>(score, member)\<close> pairs. \<open>appendedEntries\<close>: the pair that an append writes
  for the section at index \<open>i\<close>. \<open>insertedSet old pairs\<close>: the contents after the
  insertion, that is the old entries whose member is not inserted, and every inserted
  member with the score of its last occurrence. \<open>liveTop M t\<close>: the entries of \<open>M\<close>
  with fewer than 500 entries of \<open>M\<close> above them in rank (by score, then by member) and
  with a score above the time \<open>t\<close>.
\<close>

definition appendedEntries :: "(Section \<Rightarrow> string) \<Rightarrow> (nat \<Rightarrow> int) \<Rightarrow> Section list \<Rightarrow> (int \<times> string) list" where
  "appendedEntries stringify now sections =
     map (\<lambda>i. (now i + int i + 86400000, stringify (sections ! i))) [0..<length sections]"

definition insertedSet :: "(int \<times> string) list \<Rightarrow> (int \<times> string) list \<Rightarrow> (int \<times> string) set" where
  "insertedSet old pairs =
     {e \<in> set old. snd e \<notin> snd ` set pairs} \<union>
     {(s, m). map_of (rev (map (\<lambda>p. (snd p, fst p)) pairs)) m = Some s}"

definition liveTop :: "(int \<times> string) set \<Rightarrow> int \<Rightarrow> (int \<times> string) set" where
  "liveTop M t = {e \<in> M. card {x \<in> M. e < x} < 500 \<and> t < fst e}"

subsection \<open>Example inputs\<close>

definition exPublicItem :: "nat \<Rightarrow> PublicItem" where
  "exPublicItem n =
     \<lparr>pi_id = ''pub-'' @ replicate n CHR ''i'',
      pi_title = ''Public article '' @ replicate n CHR ''i'',
      pi_url = ''https://example.org/public'',
      pi_thumbnail = None, pi_previewContent = None, pi_languageCode = None,
      pi_author = None, pi_dir = None, pi_createdAt = 1700000000000,
      pi_topic = None, pi_wordCount = 200 + int n, pi_siteIcon = None,
      pi_publishedAt = None, pi_source_name = ''Feed'', pi_source_type = ''rss''\<rparr>"

definition exLibraryItem :: "nat \<Rightarrow> LibraryItem" where
  "exLibraryItem n =
     \<lparr>li_id = ''lib-'' @ replicate n CHR ''i'',
      li_title = ''Saved article '' @ replicate n CHR ''i'',
      li_originalUrl = ''https://example.org/saved'',
      li_thumbnail = None, li_description = None, li_itemLanguage = Some ''English'',
      li_author = None, li_directionality = None, li_createdAt = 1700000000000,
      li_topic = None, li_wordCount = 100 + int n, li_siteName = None, li_siteIcon = None,
      li_folder = Some ''inbox'', li_score = None, li_publishedAt = None,
      li_subscription = None\<rparr>"

text \<open>
  Services of a user with \<open>p\<close> unseen saved items and \<open>q\<close> unseen public items; the
  scoring service answers every requested id with 100 minus twice the length of the id.
\<close>

definition exServices :: "nat \<Rightarrow> nat \<Rightarrow> Services" where
  "exServices p q =
     \<lparr>findActiveUser = (\<lambda>userId. Inr (Some \<lparr>u_id = userId\<rparr>)),
      searchLibraryItems = (\<lambda>userId. Inr (map exLibraryItem [0..<p])),
      findSubscriptionsByNames = (\<lambda>userId names. Inr []),
      findUnseenPublicItems = (\<lambda>userId. Inr (map exPublicItem [0..<q])),
      getScores = (\<lambda>data. Inr (\<lambda>k. map_option (\<lambda>f. 100 - 2 * real (length k)) (item_features data k))),
      lanaugeToCode = (\<lambda>l. ''en'')\<rparr>"

definition exSelected :: "Candidate list" where
  "exSelected =
     map (\<lambda>item. libraryItemToCandidate (\<lambda>l. ''en'') item []) (map exLibraryItem [0..<5])
     @ map publicItemToCandidate (map exPublicItem [0..<50])"

definition exSmall :: "Candidate list" where
  "exSmall = map (\<lambda>n. publicItemToCandidate (exPublicItem n)) [0..<5]"

text \<open>
  Twelve candidates: one that carries the precomputed score 81, and eleven without a
  score, for which the example scoring service answers 92, 90, ..., 72.
\<close>

definition exScored :: Candidate where
  "exScored = (libraryItemToCandidate (\<lambda>l. ''en'') (exLibraryItem 0) []) \<lparr>score := Some 81\<rparr>"

definition exRankInput :: "Candidate list" where
  "exRankInput = exScored # map (\<lambda>n. publicItemToCandidate (exPublicItem n)) [0..<11]"

definition exNewScores :: ScoreApiResponse where
  "exNewScores =
     (\<lambda>k. map_option (\<lambda>f. 100 - 2 * real (length k))
            (item_features (scoreRequest ''u'' exRankInput) k))"

text \<open>
  Eleven candidates in ascending order of the scores 72, 74, ..., 92 that the scoring
  service returns for them, followed by a candidate whose id is \<open>toString\<close>, which
  carries no score and for which the scoring service returns none.
\<close>

definition exToString :: Candidate where
  "exToString = publicItemToCandidate ((exPublicItem 0) \<lparr>pi_id := ''toString''\<rparr>)"

definition exInherited :: "Candidate list" where
  "exInherited = map (\<lambda>n. publicItemToCandidate (exPublicItem n)) (rev [0..<11]) @ [exToString]"

definition exQuietScores :: ScoreApiResponse where
  "exQuietScores =
     (\<lambda>k. if k = ''toString'' then None
          else map_option (\<lambda>f. 100 - 2 * real (length k))
                 (item_features (scoreRequest ''u'' exInherited) k))"

definition exQuietServices :: Services where
  "exQuietServices =
     (exServices 0 12) \<lparr>getScores := (\<lambda>data. Inr
        (\<lambda>k. if k = ''toString'' then None
             else map_option (\<lambda>f. 100 - 2 * real (length k)) (item_features data k)))\<rparr>"

text \<open>Candidates with their own author, site name and subscription.\<close>

definition exCandidate :: "string \<Rightarrow> string \<Rightarrow> int \<Rightarrow> Candidate" where
  "exCandidate i t w =
     \<lparr>cid = ''c-'' @ i,
      title = t,
      url = ''https://example.org/c'',
      ctype = ''library_item'',
      thumbnail = None, previewContent = None, languageCode = ''en'',
      author = Some (''author-'' @ i),
      dir = ''ltr'', date = 1700000000000, topic = None,
      wordCount = w,
      siteIcon = None,
      siteName = Some (''site-'' @ i),
      folder = None, score = None, publishedAt = None,
      subscription = Some \<lparr>sub_name = ''sub-'' @ i, sub_type = ''rss''\<rparr>\<rparr>"

definition exSameTitle :: "Candidate list" where
  "exSameTitle =
     [exCandidate ''0'' ''Same title'' 100, exCandidate ''1'' ''Same title'' 101,
      exCandidate ''2'' ''Same title'' 102, exCandidate ''3'' ''Same title'' 103,
      exCandidate ''4'' ''Same title'' 104, exCandidate ''5'' ''Same title'' 105,
      exCandidate ''6'' ''Same title'' 106, exCandidate ''7'' ''Same title'' 107,
      exCandidate ''8'' ''Same title'' 108, exCandidate ''9'' ''Same title'' 109]"

definition exSameTitleBatch :: "Candidate list" where
  "exSameTitleBatch =
     [exCandidate ''5'' ''Same title'' 105, exCandidate ''6'' ''Same title'' 106,
      exCandidate ''7'' ''Same title'' 107, exCandidate ''8'' ''Same title'' 108,
      exCandidate ''9'' ''Same title'' 109, exCandidate ''0'' ''Same title'' 100,
      exCandidate ''1'' ''Same title'' 101, exCandidate ''2'' ''Same title'' 102,
      exCandidate ''3'' ''Same title'' 103, exCandidate ''4'' ''Same title'' 104]"

definition exDiverse :: "Candidate list" where
  "exDiverse =
     [exCandidate ''0'' ''Title 0'' 900, exCandidate ''1'' ''Title 1'' 150,
      exCandidate ''2'' ''Title 2'' 700, exCandidate ''3'' ''Title 3'' 120,
      exCandidate ''4'' ''Title 4'' 800, exCandidate ''5'' ''Title 5'' 100,
      exCandidate ''6'' ''Title 6'' 650, exCandidate ''7'' ''Title 7'' 200,
      exCandidate ''8'' ''Title 8'' 1000, exCandidate ''9'' ''Title 9'' 300]"

definition exDiverseLong :: "Candidate list" where
  "exDiverseLong =
     [exCandidate ''0'' ''Title 0'' 900, exCandidate ''2'' ''Title 2'' 700,
      exCandidate ''4'' ''Title 4'' 800, exCandidate ''6'' ''Title 6'' 650,
      exCandidate ''8'' ''Title 8'' 1000]"

definition exDiverseShort :: "Candidate list" where
  "exDiverseShort =
     [exCandidate ''1'' ''Title 1'' 150, exCandidate ''3'' ''Title 3'' 120,
      exCandidate ''5'' ''Title 5'' 100, exCandidate ''7'' ''Title 7'' 200,
      exCandidate ''9'' ''Title 9'' 300]"

text \<open>The list \<open>exDiverse\<close> with the author of candidate 0 on candidate 2 as well.\<close>

definition exShared :: "Candidate list" where
  "exShared =
     [exCandidate ''0'' ''Title 0'' 900, exCandidate ''1'' ''Title 1'' 150,
      (exCandidate ''2'' ''Title 2'' 700) \<lparr>author := Some ''author-0''\<rparr>,
      exCandidate ''3'' ''Title 3'' 120,
      exCandidate ''4'' ''Title 4'' 800, exCandidate ''5'' ''Title 5'' 100,
      exCandidate ''6'' ''Title 6'' 650, exCandidate ''7'' ''Title 7'' 200,
      exCandidate ''8'' ''Title 8'' 1000, exCandidate ''9'' ''Title 9'' 300]"

definition exSharedLong :: "Candidate list" where
  "exSharedLong =
     [exCandidate ''0'' ''Title 0'' 900,
      (exCandidate ''2'' ''Title 2'' 700) \<lparr>author := Some ''author-0''\<rparr>,
      exCandidate ''4'' ''Title 4'' 800, exCandidate ''6'' ''Title 6'' 650,
      exCandidate ''8'' ''Title 8'' 1000]"

definition exPair :: "Candidate list" where
  "exPair = [exCandidate ''0'' ''Title 0'' 300, exCandidate ''1'' ''Title 1'' 100]"

text \<open>
  A stand-in for \<open>JSON.stringify\<close> on the two example sections, with the reader that
  inverts it on them; a clock that starts at \<open>t\<close> and advances by one millisecond at
  every reading; an empty Redis.
\<close>

definition exStringify :: "Section \<Rightarrow> string" where
  "exStringify s =
     layout s @ concat (map (\<lambda>i. ''|'' @ item_id i @ '':'' @ item_type i) (items s))"

definition exSectionA :: Section where
  "exSectionA = \<lparr>items = [\<lparr>item_id = ''a'', item_type = ''library_item''\<rparr>], layout = ''long''\<rparr>"

definition exSectionB :: Section where
  "exSectionB = \<lparr>items = [\<lparr>item_id = ''b'', item_type = ''public_item''\<rparr>], layout = ''long''\<rparr>"

definition exParse :: "string \<Rightarrow> Section" where
  "exParse m = (if m = exStringify exSectionA then exSectionA else exSectionB)"

definition exNow :: "int \<Rightarrow> nat \<Rightarrow> int" where
  "exNow t k = t + int k"

definition exRedis :: redis where
  "exRedis = (\<lambda>key. [])"

definition exStore :: redis where
  "exStore = exRedis(redisKey ''u'' :=
     [(86401000, exStringify exSectionA), (86405000, exStringify exSectionB)])"

text \<open>501 sections with 501 different serialisations.\<close>

definition exSectionN :: "nat \<Rightarrow> Section" where
  "exSectionN n =
     \<lparr>items = [\<lparr>item_id = replicate n CHR ''x'', item_type = ''public_item''\<rparr>], layout = ''long''\<rparr>"

definition exMany :: "Section list" where
  "exMany = map exSectionN [0..<501]"

section \<open>Candidate Selector: bounds\<close>

lemma ctype_library [simp]: "ctype (libraryItemToCandidate l item subs) = ''library_item''"
  by (simp add: libraryItemToCandidate_def)

lemma ctype_public [simp]: "ctype (publicItemToCandidate item) = ''public_item''"
  by (simp add: publicItemToCandidate_def)

lemma selectCandidates_shape:
  assumes "selectCandidates sv user = Inr cs"
  shows "\<exists>libraryItems subscriptions publicItems.
           searchLibraryItems sv (u_id user) = Inr libraryItems \<and>
           findUnseenPublicItems sv (u_id user) = Inr publicItems \<and>
           cs = take 70 (map (\<lambda>item. libraryItemToCandidate (lanaugeToCode sv) item subscriptions) libraryItems)
                @ take (100 - min 70 (length libraryItems)) (map publicItemToCandidate publicItems)"
proof -
  from assms obtain ls subs ps where
    "searchLibraryItems sv (u_id user) = Inr ls"
    "findUnseenPublicItems sv (u_id user) = Inr ps"
    "cs = take 70 (map (\<lambda>item. libraryItemToCandidate (lanaugeToCode sv) item subs) ls)
          @ take (100 - length (take 70 (map (\<lambda>item. libraryItemToCandidate (lanaugeToCode sv) item subs) ls)))
              (map publicItemToCandidate ps)"
    by (auto simp: selectCandidates_def Let_def split: sum.splits)
  moreover have "length (take 70 (map (\<lambda>item. libraryItemToCandidate (lanaugeToCode sv) item subs) ls))
      = min 70 (length ls)"
    by (simp add: min.commute)
  ultimately show ?thesis by metis
qed

lemma filter_private_take:
  "filter isPrivate (take n (map (\<lambda>item. libraryItemToCandidate l item subs) xs)) =
   take n (map (\<lambda>item. libraryItemToCandidate l item subs) xs)"
  by (rule filter_True) (auto simp: isPrivate_def dest!: in_set_takeD)

lemma filter_private_public:
  "filter isPrivate (take n (map publicItemToCandidate xs)) = []"
  by (auto simp: filter_empty_conv isPrivate_def dest!: in_set_takeD)

lemma filter_public_private:
  "filter isPublic (take n (map (\<lambda>item. libraryItemToCandidate l item subs) xs)) = []"
  by (auto simp: filter_empty_conv isPublic_def dest!: in_set_takeD)

lemma filter_public_take:
  "filter isPublic (take n (map publicItemToCandidate xs)) = take n (map publicItemToCandidate xs)"
  by (rule filter_True) (auto simp: isPublic_def dest!: in_set_takeD)

lemma ex_select: "selectCandidates (exServices 5 50) \<lparr>u_id = ''u''\<rparr> = Inr exSelected"
  by (simp add: selectCandidates_def exServices_def exSelected_def Let_def)

lemma ex_select_private: "length (filter isPrivate exSelected) = 5"
  using filter_private_take [where l = "\<lambda>l. ''en''" and subs = "[]" and n = 5 and xs = "map exLibraryItem [0..<5]"]
        filter_private_public [of 50 "map exPublicItem [0..<50]"]
  by (simp add: exSelected_def del: upt_Suc)

lemma ex_select_public: "length (filter isPublic exSelected) = 50"
  using filter_public_private [where l = "\<lambda>l. ''en''" and subs = "[]" and n = 5 and xs = "map exLibraryItem [0..<5]"]
        filter_public_take [of 50 "map exPublicItem [0..<50]"]
  by (simp add: exSelected_def del: upt_Suc)

text \<open>
  C1 (as amended). Whenever the Selector returns, it returns \<open>min 70 p\<close> private-origin
  candidates, where \<open>p\<close> is the number of items the private query returned, followed by
  \<open>min (100 - min 70 p) q\<close> public-origin candidates, where \<open>q\<close> is the number of items
  the public query returned. Hence at most 70 private-origin candidates, at most
  100 minus the number of private-origin candidates public-origin ones (the public
  share backfills a short private supply and is not capped at 30), and at most 100 in
  total.
\<close>

theorem selectCandidates_bounds:
  assumes "selectCandidates sv user = Inr cs"
  shows "\<exists>libraryItems publicItems.
           searchLibraryItems sv (u_id user) = Inr libraryItems \<and>
           findUnseenPublicItems sv (u_id user) = Inr publicItems \<and>
           length (filter isPrivate cs) = min 70 (length libraryItems) \<and>
           length (filter isPublic cs) =
             min (100 - min 70 (length libraryItems)) (length publicItems) \<and>
           length cs = length (filter isPrivate cs) + length (filter isPublic cs) \<and>
           length (filter isPrivate cs) \<le> 70 \<and>
           length (filter isPublic cs) \<le> 100 - length (filter isPrivate cs) \<and>
           length cs \<le> 100"
proof -
  from selectCandidates_shape [OF assms] obtain ls subs ps where
    q1: "searchLibraryItems sv (u_id user) = Inr ls" and
    q2: "findUnseenPublicItems sv (u_id user) = Inr ps" and
    cs: "cs = take 70 (map (\<lambda>item. libraryItemToCandidate (lanaugeToCode sv) item subs) ls)
                @ take (100 - min 70 (length ls)) (map publicItemToCandidate ps)"
    by blast
  have pr: "filter isPrivate cs =
              take 70 (map (\<lambda>item. libraryItemToCandidate (lanaugeToCode sv) item subs) ls)"
    unfolding cs by (simp only: filter_append filter_private_take filter_private_public append_Nil2)
  have pu: "filter isPublic cs = take (100 - min 70 (length ls)) (map publicItemToCandidate ps)"
    unfolding cs by (simp only: filter_append filter_public_take filter_public_private append_Nil)
  have n1: "length (filter isPrivate cs) = min 70 (length ls)"
    unfolding pr by (simp add: min.commute)
  have n2: "length (filter isPublic cs) = min (100 - min 70 (length ls)) (length ps)"
    unfolding pu by (simp add: min.commute)
  have n3: "length cs = length (filter isPrivate cs) + length (filter isPublic cs)"
    unfolding pr pu unfolding cs by simp
  have "length (filter isPrivate cs) \<le> 70 \<and>
        length (filter isPublic cs) \<le> 100 - length (filter isPrivate cs) \<and> length cs \<le> 100"
    using n1 n2 n3 by linarith
  with q1 q2 n1 n2 n3 show ?thesis by blast
qed

theorem selectCandidates_bounds_witness:
  "selectCandidates (exServices 5 50) \<lparr>u_id = ''u''\<rparr> = Inr exSelected \<and>
   length (filter isPrivate exSelected) = 5 \<and>
   length (filter isPublic exSelected) = 50 \<and>
   length exSelected = length (filter isPrivate exSelected) + length (filter isPublic exSelected) \<and>
   length exSelected \<le> 100"
  using selectCandidates_bounds [OF ex_select] ex_select ex_select_private ex_select_public
  by auto

text \<open>
  The claim as stated fails: with 5 private unseen items and 50 public unseen items the
  Selector returns all 50 public items, 55 candidates in total, not 30 and 35.
\<close>

theorem selectCandidates_public_cap_counterexample:
  "selectCandidates (exServices 5 50) \<lparr>u_id = ''u''\<rparr> = Inr exSelected \<and>
   length (filter isPrivate exSelected) = 5 \<and>
   length (filter isPublic exSelected) = 50 \<and>
   \<not> length (filter isPublic exSelected) \<le> 30 \<and>
   length exSelected = 55 \<and> length exSelected \<noteq> 35"
proof -
  have "length exSelected = 55" by (simp add: exSelected_def)
  then show ?thesis using ex_select ex_select_private ex_select_public by simp
qed

section \<open>Ranker\<close>

text \<open>
  C5. A candidate list of at most 10 entries is returned as it is, in the same order, and
  no request is sent to the scoring service.
\<close>

theorem rankCandidates_small:
  "length candidates \<le> 10 \<Longrightarrow> rankCandidates sv userId candidates = ([], Inr candidates)"
  by (simp add: rankCandidates_def)

theorem rankCandidates_small_witness:
  "length exSmall \<le> 10 \<and> rankCandidates (exServices 5 50) ''u'' exSmall = ([], Inr exSmall)"
proof -
  have h: "length exSmall \<le> 10" by (simp add: exSmall_def)
  show ?thesis using h rankCandidates_small [OF h] by simp
qed

lemma itemFeatures_foldl:
  "foldl (\<lambda>acc item. assign acc (cid item) (featureOf item)) acc xs k = Some f \<Longrightarrow>
     acc k = Some f \<or> (\<exists>c\<in>set xs. cid c = k \<and> featureOf c = f)"
proof (induction xs arbitrary: acc)
  case Nil
  then show ?case by simp
next
  case (Cons x xs)
  from Cons.IH [of "assign acc (cid x) (featureOf x)"] Cons.prems
  have "assign acc (cid x) (featureOf x) k = Some f \<or> (\<exists>c\<in>set xs. cid c = k \<and> featureOf c = f)"
    by simp
  then show ?case by (auto simp: assign_def split: if_splits)
qed

lemma itemFeatures_source:
  "itemFeatures xs k = Some f \<Longrightarrow> \<exists>c\<in>set xs. cid c = k \<and> featureOf c = f"
  using itemFeatures_foldl [of Map.empty xs k f] by (simp add: itemFeatures_def)

text \<open>
  Every entry of the request was built from a candidate that carries no precomputed score.
\<close>

lemma scoreRequest_unscored:
  "item_features (scoreRequest userId candidates) k = Some f \<Longrightarrow>
     \<exists>c\<in>set candidates. score c = None \<and> cid c = k \<and> featureOf c = f"
  using itemFeatures_source [of "filter (\<lambda>item. score item = None) candidates" k f]
  by (auto simp: scoreRequest_def)

lemma find_filter_conj: "find P (filter Q xs) = find (\<lambda>x. P x \<and> Q x) xs"
  by (induction xs) auto

lemma assign_foldl:
  assumes "k \<noteq> ''__proto__''"
  shows "foldl (\<lambda>acc item. assign acc (cid item) (g item)) acc xs k =
     (case find (\<lambda>d. cid d = k) (rev xs) of Some d \<Rightarrow> Some (g d) | None \<Rightarrow> acc k)"
proof (induction xs rule: rev_induct)
  case Nil
  then show ?case by simp
next
  case (snoc x xs)
  then show ?case using assms by (simp add: assign_def)
qed

lemma preCalculatedScores_own:
  assumes "k \<noteq> ''__proto__''"
  shows "preCalculatedScores candidates k =
     map_option (\<lambda>d. the (score d)) (find (\<lambda>d. cid d = k \<and> score d \<noteq> None) (rev candidates))"
proof -
  have "rev (filter (\<lambda>item. score item \<noteq> None) candidates) =
        filter (\<lambda>item. score item \<noteq> None) (rev candidates)"
    by (rule rev_filter)
  then have "find (\<lambda>d. cid d = k) (rev (filter (\<lambda>item. score item \<noteq> None) candidates)) =
             find (\<lambda>d. cid d = k \<and> score d \<noteq> None) (rev candidates)"
    by (simp only: find_filter_conj)
  then show ?thesis
    unfolding preCalculatedScores_def assign_foldl [OF assms]
    by (simp only:) (simp split: option.splits)
qed

lemma scoreOrZero_numeric:
  assumes "cid c \<notin> set objectPrototypeKeys"
  shows "scoreOrZero (mergedScores candidates newScores) c =
           JNumber (specMergedScore candidates newScores c)"
proof -
  have "cid c \<noteq> ''__proto__''" using assms by (auto simp: objectPrototypeKeys_def)
  from preCalculatedScores_own [OF this, of candidates] assms show ?thesis
    by (simp add: scoreOrZero_def mergedScores_def specMergedScore_def map_add_def
        split: option.splits)
qed

lemma insertBy_numeric:
  assumes "scoreOrZero scores x = JNumber (key x)"
    and "\<forall>y\<in>set ys. scoreOrZero scores y = JNumber (key y)"
  shows "insertBy (compareScores scores) x ys = insort_key key x ys"
  using assms(2)
proof (induction ys)
  case Nil
  then show ?case by simp
next
  case (Cons y ys)
  then have "sortCompare (compareScores scores) x y = key x - key y"
    using assms(1) by (simp add: sortCompare_def compareScores_def)
  with Cons show ?case by simp
qed

lemma arraySort_numeric:
  assumes "\<forall>x\<in>set xs. scoreOrZero scores x = JNumber (key x)"
  shows "arraySort (compareScores scores) xs = sort_key key xs"
  using assms
proof (induction xs)
  case Nil
  then show ?case by (simp add: arraySort_def)
next
  case (Cons x xs)
  then have ih: "arraySort (compareScores scores) xs = sort_key key xs" by simp
  have "\<forall>y\<in>set (sort_key key xs). scoreOrZero scores y = JNumber (key y)"
    using Cons.prems by simp
  with Cons.prems have "insertBy (compareScores scores) x (sort_key key xs) =
      insort_key key x (sort_key key xs)"
    by (intro insertBy_numeric) simp_all
  with ih show ?case by (simp add: arraySort_def)
qed

lemma insertBy_length [simp]: "length (insertBy c x ys) = Suc (length ys)"
  by (induction ys) simp_all

lemma arraySort_length [simp]: "length (arraySort c xs) = length xs"
  by (induction xs) (simp_all add: arraySort_def)

lemma sorted_by_key_unique:
  assumes "distinct (map f xs)" "mset ys = mset xs" "sorted (map f xs)" "sorted (map f ys)"
  shows "ys = xs"
proof -
  have s: "set ys = set xs" using assms(2) by (rule mset_eq_setD)
  have "mset (map f ys) = mset (map f xs)" using assms(2) by simp
  then have d: "distinct (map f ys)" using assms(1) by (metis mset_eq_imp_distinct_iff)
  have "inj_on f (set xs)" using assms(1) by (simp add: distinct_map)
  then have "inj_on f (set ys \<union> set xs)" using s by simp
  then show ?thesis
    using map_sorted_distinct_set_unique [of f ys xs] assms d s by blast
qed

text \<open>
  What the Ranker does when no candidate's id names a member of \<open>Object.prototype\<close>:
  for a list of more than 10 candidates whose merged scores are distinct, when the
  scoring service answers, it sends one request and returns the one arrangement of the
  input that is sorted non-decreasing by merged score.
\<close>

lemma rankCandidates_sorted:
  assumes "length candidates > 10"
    and "getScores sv (scoreRequest userId candidates) = Inr newScores"
    and "\<forall>c\<in>set candidates. cid c \<notin> set objectPrototypeKeys"
    and "distinct (map (specMergedScore candidates newScores) candidates)"
  shows "\<exists>ranked.
      rankCandidates sv userId candidates = ([scoreRequest userId candidates], Inr ranked) \<and>
      mset ranked = mset candidates \<and>
      sorted (map (specMergedScore candidates newScores) ranked) \<and>
      (\<forall>ys. mset ys = mset candidates \<and>
            sorted (map (specMergedScore candidates newScores) ys) \<longrightarrow> ys = ranked)"
proof -
  let ?key = "specMergedScore candidates newScores"
  let ?ranked = "sort_key ?key candidates"
  have "\<forall>c\<in>set candidates. scoreOrZero (mergedScores candidates newScores) c = JNumber (?key c)"
    using assms(3) scoreOrZero_numeric by blast
  then have "arraySort (compareScores (mergedScores candidates newScores)) candidates = ?ranked"
    by (rule arraySort_numeric)
  then have run: "rankCandidates sv userId candidates = ([scoreRequest userId candidates], Inr ?ranked)"
    using assms(1,2) by (simp add: rankCandidates_def Let_def)
  have perm: "mset ?ranked = mset candidates" by simp
  have srt: "sorted (map ?key ?ranked)" by simp
  have dist: "distinct (map ?key ?ranked)"
    using assms(4) perm by (metis mset_eq_imp_distinct_iff mset_map)
  have uniq: "\<forall>ys. mset ys = mset candidates \<and> sorted (map ?key ys) \<longrightarrow> ys = ?ranked"
    using sorted_by_key_unique [OF dist _ srt] perm by simp
  show ?thesis
    using run perm srt uniq by blast
qed

lemma ex_getScores:
  "getScores (exServices 5 50) (scoreRequest ''u'' exRankInput) = Inr exNewScores"
  by (simp add: exServices_def exNewScores_def)

lemmas ranker_example_defs = exNewScores_def exRankInput_def exScored_def
      scoreRequest_def itemFeatures_def assign_def libraryItemToCandidate_def
      publicItemToCandidate_def exLibraryItem_def exPublicItem_def upt_rec orDefault_def
      orUndefined_def exInherited_def exToString_def exQuietScores_def

lemma ex_keys:
  "map (specMergedScore exRankInput exNewScores) exRankInput
   = [81, 92, 90, 88, 86, 84, 82, 80, 78, 76, 74, 72]"
  by (simp add: specMergedScore_def ranker_example_defs)

lemma ex_ids: "\<forall>c\<in>set exRankInput. cid c \<notin> set objectPrototypeKeys"
  by (simp add: objectPrototypeKeys_def ranker_example_defs)

lemma rankCandidates_sorted_example:
  "length exRankInput > 10 \<and>
   getScores (exServices 5 50) (scoreRequest ''u'' exRankInput) = Inr exNewScores \<and>
   distinct (map (specMergedScore exRankInput exNewScores) exRankInput) \<and>
   rankCandidates (exServices 5 50) ''u'' exRankInput =
     ([scoreRequest ''u'' exRankInput],
      Inr (map (\<lambda>n. publicItemToCandidate (exPublicItem n)) [10, 9, 8, 7, 6] @
           exScored # map (\<lambda>n. publicItemToCandidate (exPublicItem n)) [5, 4, 3, 2, 1, 0]))"
proof -
  let ?out = "map (\<lambda>n. publicItemToCandidate (exPublicItem n)) [10, 9, 8, 7, 6] @
           exScored # map (\<lambda>n. publicItemToCandidate (exPublicItem n)) [5, 4, 3, 2, 1, 0]"
  have h1: "length exRankInput > 10" by (simp add: exRankInput_def)
  have h3: "distinct (map (specMergedScore exRankInput exNewScores) exRankInput)"
    by (simp add: ex_keys)
  have m: "mset ?out = mset exRankInput"
    by (simp add: exRankInput_def upt_rec eval_nat_numeral)
  have "map (specMergedScore exRankInput exNewScores) ?out =
          [72, 74, 76, 78, 80, 81, 82, 84, 86, 88, 90, 92]"
    by (simp add: specMergedScore_def ranker_example_defs eval_nat_numeral)
  then have s: "sorted (map (specMergedScore exRankInput exNewScores) ?out)" by simp
  from rankCandidates_sorted [OF h1 ex_getScores ex_ids h3] m s
  have "rankCandidates (exServices 5 50) ''u'' exRankInput =
          ([scoreRequest ''u'' exRankInput], Inr ?out)"
    by blast
  with h1 h3 ex_getScores show ?thesis by blast
qed

lemma insertBy_front:
  "ys = [] \<or> sortCompare c x (hd ys) \<le> 0 \<Longrightarrow> insertBy c x ys = x # ys"
  by (cases ys) auto

text \<open>
  An array in which no element compares above a later one (every comparator result for
  an earlier and a later element is negative, zero or \<open>NaN\<close>) is returned as it is.
\<close>

lemma arraySort_ascending:
  "sorted_wrt (\<lambda>x y. sortCompare c x y \<le> 0) xs \<Longrightarrow> arraySort c xs = xs"
proof (induction xs)
  case Nil
  then show ?case by (simp add: arraySort_def)
next
  case (Cons x xs)
  then have ih: "arraySort c xs = xs" by simp
  from Cons.prems have "xs = [] \<or> sortCompare c x (hd xs) \<le> 0" by (cases xs) auto
  then have "insertBy c x xs = x # xs" by (rule insertBy_front)
  with ih show ?case by (simp add: arraySort_def)
qed

lemma sortCompare_notAbove:
  "(sortCompare (compareScores scores) x y \<le> 0) = notAbove (scoreOrZero scores x) (scoreOrZero scores y)"
  by (simp add: sortCompare_def compareScores_def notAbove_def split: jsvalue.splits)

lemma exInherited_values:
  "map (scoreOrZero (mergedScores exInherited exQuietScores)) exInherited =
     [JNumber 72, JNumber 74, JNumber 76, JNumber 78, JNumber 80, JNumber 82, JNumber 84,
      JNumber 86, JNumber 88, JNumber 90, JNumber 92, JInherited]"
  by (simp add: scoreOrZero_def mergedScores_def preCalculatedScores_def map_add_def
      objectPrototypeKeys_def ranker_example_defs)

lemma exInherited_spec:
  "map (specMergedScore exInherited exQuietScores) exInherited =
     [72, 74, 76, 78, 80, 82, 84, 86, 88, 90, 92, 0]"
  by (simp add: specMergedScore_def ranker_example_defs)

text \<open>
  C4. The claim fails on the code for a candidate whose id names a member that every
  object inherits. Twelve candidates without precomputed scores are ranked; the scoring
  service returns 72, 74, ..., 92 for the first eleven and nothing for the last, whose id
  is \<open>toString\<close>. Its merged score is missing, so by the claim it counts as zero and
  the candidate comes first. In the code \<open>scores['toString']\<close> is the inherited
  function, \<open>|| 0\<close> keeps it, the comparator returns \<open>NaN\<close> for every pair with this
  candidate, and the list is returned as it was, with the candidate last: the output is
  not sorted by merged score.
\<close>

theorem rankCandidates_inherited_id:
  "length exInherited > 10 \<and>
   getScores exQuietServices (scoreRequest ''u'' exInherited) = Inr exQuietScores \<and>
   cid (last exInherited) = ''toString'' \<and> score (last exInherited) = None \<and>
   exQuietScores ''toString'' = None \<and>
   map (specMergedScore exInherited exQuietScores) exInherited =
     [72, 74, 76, 78, 80, 82, 84, 86, 88, 90, 92, 0] \<and>
   rankCandidates exQuietServices ''u'' exInherited =
     ([scoreRequest ''u'' exInherited], Inr exInherited) \<and>
   \<not> sorted (map (specMergedScore exInherited exQuietScores) exInherited)"
proof -
  have h1: "length exInherited > 10" by (simp add: exInherited_def)
  have h2: "getScores exQuietServices (scoreRequest ''u'' exInherited) = Inr exQuietScores"
    by (simp add: exQuietServices_def exQuietScores_def)
  have l: "cid (last exInherited) = ''toString''" "score (last exInherited) = None"
    by (simp_all add: exInherited_def exToString_def publicItemToCandidate_def)
  have q: "exQuietScores ''toString'' = None" by (simp add: exQuietScores_def)
  have "sorted_wrt notAbove (map (scoreOrZero (mergedScores exInherited exQuietScores)) exInherited)"
    unfolding exInherited_values by (simp add: notAbove_def)
  then have "sorted_wrt (\<lambda>x y. sortCompare (compareScores (mergedScores exInherited exQuietScores)) x y \<le> 0)
      exInherited"
    unfolding sortCompare_notAbove by (simp only: sorted_wrt_map)
  then have "arraySort (compareScores (mergedScores exInherited exQuietScores)) exInherited = exInherited"
    by (rule arraySort_ascending)
  then have run: "rankCandidates exQuietServices ''u'' exInherited =
     ([scoreRequest ''u'' exInherited], Inr exInherited)"
    using h1 h2 by (simp add: rankCandidates_def Let_def)
  have ns: "\<not> sorted (map (specMergedScore exInherited exQuietScores) exInherited)"
    unfolding exInherited_spec by simp
  show ?thesis using h1 h2 l q exInherited_spec run ns by simp
qed

section \<open>Mixer: median and split\<close>

lemma exCandidate_sel [simp]:
  "cid (exCandidate i t w) = ''c-'' @ i" "title (exCandidate i t w) = t"
  "wordCount (exCandidate i t w) = w" "author (exCandidate i t w) = Some (''author-'' @ i)"
  "siteName (exCandidate i t w) = Some (''site-'' @ i)"
  "subscription (exCandidate i t w) = Some \<lparr>sub_name = ''sub-'' @ i, sub_type = ''rss''\<rparr>"
  "ctype (exCandidate i t w) = ''library_item''"
  by (simp_all add: exCandidate_def)

lemma split_foldl:
  "foldl (\<lambda>(shortItems, longItems) item.
              if P item then (shortItems @ [item], longItems) else (shortItems, longItems @ [item]))
       (s, l) xs = (s @ filter P xs, l @ filter (\<lambda>x. \<not> P x) xs)"
  by (induction xs arbitrary: s l) auto

lemma shortItems_filter:
  "shortItems cs = filter (belowMedian (medianWordCount cs)) cs"
  by (simp add: shortItems_def splitItems_def split_foldl)

lemma longItems_filter:
  "longItems cs = filter (\<lambda>item. \<not> belowMedian (medianWordCount cs) item) cs"
  by (simp add: longItems_def splitItems_def split_foldl)

text \<open>
  C3 (as amended). For every non-empty candidate list the median word count is the
  element of the sorted word-count sequence at index \<open>length div 2\<close>: the middle
  element of an odd-length list, and the element at the upper-middle index
  (\<open>length / 2\<close>) of an even-length list, not an averaged median. The items whose word
  count is strictly below this median form the short group and the others the long group,
  each in the order of the input.
\<close>

theorem mixer_median_split:
  assumes "cs \<noteq> []"
  shows "medianWordCount cs = Some (sort (map wordCount cs) ! (length cs div 2)) \<and>
         shortItems cs =
           filter (\<lambda>item. wordCount item < sort (map wordCount cs) ! (length cs div 2)) cs \<and>
         longItems cs =
           filter (\<lambda>item. \<not> wordCount item < sort (map wordCount cs) ! (length cs div 2)) cs"
proof -
  have "length cs div 2 < length cs" using assms by simp
  then have m: "medianWordCount cs = Some (sort (map wordCount cs) ! (length cs div 2))"
    by (simp add: medianWordCount_def)
  have b: "belowMedian (Some v) = (\<lambda>item. wordCount item < v)" for v
    by (rule ext) (simp add: belowMedian_def)
  show ?thesis unfolding shortItems_filter longItems_filter m b by simp
qed

lemma exDiverse_median: "medianWordCount exDiverse = Some 650"
  by (simp add: medianWordCount_def exDiverse_def)

lemma exDiverse_short: "shortItems exDiverse = exDiverseShort"
  unfolding shortItems_filter exDiverse_median
  by (simp add: belowMedian_def exDiverse_def exDiverseShort_def)

lemma exDiverse_long: "longItems exDiverse = exDiverseLong"
  unfolding longItems_filter exDiverse_median
  by (simp add: belowMedian_def exDiverse_def exDiverseLong_def)

theorem mixer_median_split_witness:
  "exDiverse \<noteq> [] \<and> medianWordCount exDiverse = Some 650 \<and>
   shortItems exDiverse = exDiverseShort \<and> longItems exDiverse = exDiverseLong \<and>
   sort (map wordCount exDiverse) ! (length exDiverse div 2) = 650"
proof -
  have ne: "exDiverse \<noteq> []" by (simp add: exDiverse_def)
  have "sort (map wordCount exDiverse) ! (length exDiverse div 2) = 650"
    by (simp add: exDiverse_def)
  with mixer_median_split [OF ne] ne exDiverse_short exDiverse_long show ?thesis by simp
qed

text \<open>
  The claim as stated fails on the two word counts 300 and 100: the lower-middle element
  of the sorted sequence is 100, which would leave the short group empty, but the Mixer's
  median is 300 and the item of 100 words goes to the short group.
\<close>

theorem mixer_median_lower_middle_counterexample:
  "medianWordCount exPair = Some 300 \<and>
   sort (map wordCount exPair) ! (length exPair div 2 - 1) = 100 \<and>
   shortItems exPair = [exCandidate ''1'' ''Title 1'' 100] \<and>
   longItems exPair = [exCandidate ''0'' ''Title 0'' 300] \<and>
   filter (\<lambda>item. wordCount item < sort (map wordCount exPair) ! (length exPair div 2 - 1)) exPair = []"
proof -
  have m: "medianWordCount exPair = Some 300" by (simp add: medianWordCount_def exPair_def)
  have l: "sort (map wordCount exPair) ! (length exPair div 2 - 1) = 100" by (simp add: exPair_def)
  have s: "shortItems exPair = [exCandidate ''1'' ''Title 1'' 100]"
    unfolding shortItems_filter m by (simp add: belowMedian_def exPair_def)
  have g: "longItems exPair = [exCandidate ''0'' ''Title 0'' 300]"
    unfolding longItems_filter m by (simp add: belowMedian_def exPair_def)
  have f: "filter (\<lambda>item. wordCount item < 100) exPair = []" by (simp add: exPair_def)
  show ?thesis unfolding l using m s g f by simp
qed

section \<open>Mixer: placement and capacity\<close>

lemma pushFirst_None: "pushFirst ok x bs = None \<longleftrightarrow> (\<forall>b\<in>set bs. \<not> ok b)"
  by (induction bs) auto

lemma pushFirst_Some:
  "pushFirst ok x bs = Some bs' \<Longrightarrow>
     \<exists>i<length bs. ok (bs ! i) \<and> (\<forall>j<i. \<not> ok (bs ! j)) \<and> bs' = bs[i := bs ! i @ [x]]"
proof (induction bs arbitrary: bs')
  case Nil
  then show ?case by simp
next
  case (Cons b bs)
  show ?case
  proof (cases "ok b")
    case True
    with Cons.prems have "bs' = (b # bs)[0 := (b # bs) ! 0 @ [x]]" by simp
    with True show ?thesis by (intro exI [of _ 0]) simp
  next
    case False
    with Cons.prems obtain r where r: "pushFirst ok x bs = Some r" and bs': "bs' = b # r"
      by auto
    from Cons.IH [OF r] obtain i where
      i: "i < length bs" "ok (bs ! i)" "\<forall>j<i. \<not> ok (bs ! j)" "r = bs[i := bs ! i @ [x]]"
      by blast
    have "\<forall>j<Suc i. \<not> ok ((b # bs) ! j)"
      using False i(3) by (auto simp: less_Suc_eq_0_disj)
    with i bs' show ?thesis by (intro exI [of _ "Suc i"]) simp
  qed
qed

lemma placed_update:
  "i < length bs \<Longrightarrow> placed (bs[i := bs ! i @ [x]]) = Suc (placed bs)"
  unfolding placed_def
proof (induction bs arbitrary: i)
  case Nil
  then show ?case by simp
next
  case (Cons b bs)
  then show ?case by (cases i) auto
qed

lemma placed_bound:
  "\<forall>b\<in>set bs. length b \<le> 10 \<Longrightarrow> placed bs \<le> 10 * length bs"
  unfolding placed_def by (induction bs) auto

lemma placed_full_iff:
  "\<forall>b\<in>set bs. length b \<le> 10 \<Longrightarrow>
     placed bs = 10 * length bs \<longleftrightarrow> (\<forall>b\<in>set bs. length b = 10)"
proof (induction bs)
  case Nil
  then show ?case by (simp add: placed_def)
next
  case (Cons b bs)
  then have b: "length b \<le> 10" and r: "\<forall>b\<in>set bs. length b \<le> 10" by auto
  have t: "placed (b # bs) = length b + placed bs" by (simp add: placed_def)
  from placed_bound [OF r] b Cons.IH [OF r] show ?case
    unfolding t by auto
qed

text \<open>
  One placement: the item is appended to one batch that held fewer than 10 items, or every
  batch is full and nothing changes.
\<close>

lemma placeItem_cases:
  "(\<exists>i<length bs. length (bs ! i) < 10 \<and> placeItem bs x = bs[i := bs ! i @ [x]]) \<or>
   ((\<forall>b\<in>set bs. \<not> length b < 10) \<and> placeItem bs x = bs)"
proof (cases "pushConstrained x bs")
  case (Some r)
  from pushFirst_Some [OF Some [unfolded pushConstrained_def]] Some
  show ?thesis by (auto simp: placeItem_def)
next
  case None
  show ?thesis
  proof (cases "pushOverflow x bs")
    case (Some r)
    from pushFirst_Some [OF Some [unfolded pushOverflow_def]] Some None
    show ?thesis by (auto simp: placeItem_def)
  next
    case None2: None
    from None2 have "\<forall>b\<in>set bs. \<not> length b < 10"
      by (simp add: pushOverflow_def pushFirst_None)
    with None None2 show ?thesis by (simp add: placeItem_def)
  qed
qed

lemma placeItem_length [simp]: "length (placeItem bs x) = length bs"
  using placeItem_cases [of bs x] by auto

lemma placeItem_cap:
  assumes "\<forall>b\<in>set bs. length b \<le> 10"
  shows "\<forall>b\<in>set (placeItem bs x). length b \<le> 10"
proof -
  from placeItem_cases [of bs x] show ?thesis
  proof
    assume "\<exists>i<length bs. length (bs ! i) < 10 \<and> placeItem bs x = bs[i := bs ! i @ [x]]"
    then obtain i where i: "i < length bs" "length (bs ! i) < 10"
      "placeItem bs x = bs[i := bs ! i @ [x]]" by blast
    show ?thesis
    proof
      fix b assume "b \<in> set (placeItem bs x)"
      then have "b \<in> insert (bs ! i @ [x]) (set bs)"
        unfolding i(3) using set_update_subset_insert by fastforce
      with assms i(2) show "length b \<le> 10" by auto
    qed
  next
    assume "(\<forall>b\<in>set bs. \<not> length b < 10) \<and> placeItem bs x = bs"
    with assms show ?thesis by simp
  qed
qed

lemma placeItem_placed:
  assumes "\<forall>b\<in>set bs. length b \<le> 10"
  shows "placed (placeItem bs x) = min (10 * length bs) (Suc (placed bs))"
proof -
  from placeItem_cases [of bs x] show ?thesis
  proof
    assume "\<exists>i<length bs. length (bs ! i) < 10 \<and> placeItem bs x = bs[i := bs ! i @ [x]]"
    then obtain i where i: "i < length bs" "length (bs ! i) < 10"
      "placeItem bs x = bs[i := bs ! i @ [x]]" by blast
    have "\<not> (\<forall>b\<in>set bs. length b = 10)" using i(1,2) nth_mem by fastforce
    then have "placed bs \<noteq> 10 * length bs" using placed_full_iff [OF assms] by simp
    with placed_bound [OF assms] have "Suc (placed bs) \<le> 10 * length bs" by simp
    then show ?thesis unfolding i(3) by (simp add: placed_update [OF i(1)])
  next
    assume a: "(\<forall>b\<in>set bs. \<not> length b < 10) \<and> placeItem bs x = bs"
    with assms have "\<forall>b\<in>set bs. length b = 10" by fastforce
    then have "placed bs = 10 * length bs" using placed_full_iff [OF assms] by simp
    with a show ?thesis by simp
  qed
qed

lemma distributeItems_append:
  "distributeItems (xs @ ys) bs = distributeItems ys (distributeItems xs bs)"
  by (simp add: distributeItems_def)

lemma distributeItems_inv:
  assumes "\<forall>b\<in>set bs. length b \<le> 10"
  shows "length (distributeItems xs bs) = length bs \<and>
         (\<forall>b\<in>set (distributeItems xs bs). length b \<le> 10) \<and>
         placed (distributeItems xs bs) = min (10 * length bs) (placed bs + length xs)"
  using assms
proof (induction xs arbitrary: bs)
  case Nil
  then show ?case using placed_bound [of bs] by (simp add: distributeItems_def)
next
  case (Cons x xs)
  have step: "distributeItems (x # xs) bs = distributeItems xs (placeItem bs x)"
    by (simp add: distributeItems_def)
  from Cons.IH [OF placeItem_cap [OF Cons.prems]] placeItem_placed [OF Cons.prems, of x]
  show ?case unfolding step by (simp add: min_def)
qed

lemma split_lengths: "length (longItems cs) + length (shortItems cs) = length cs"
  unfolding shortItems_filter longItems_filter
  using sum_length_filter_compl [of "belowMedian (medianWordCount cs)" cs] by simp

lemma mixBatches_full:
  "length (mixBatches cs) = length cs div 10 \<and> (\<forall>b\<in>set (mixBatches cs). length b = 10)"
proof -
  let ?e = "emptyBatches cs"
  let ?l = "distributeItems (longItems cs) ?e"
  have e: "\<forall>b\<in>set ?e. length b \<le> 10" "length ?e = length cs div 10" "placed ?e = 0"
    by (simp_all add: emptyBatches_def placed_def)
  from distributeItems_inv [OF e(1), of "longItems cs"]
  have l: "length ?l = length cs div 10" "\<forall>b\<in>set ?l. length b \<le> 10"
    "placed ?l = min (10 * (length cs div 10)) (length (longItems cs))"
    using e(2,3) by simp_all
  from distributeItems_inv [OF l(2), of "shortItems cs"]
  have m: "length (mixBatches cs) = length cs div 10" "\<forall>b\<in>set (mixBatches cs). length b \<le> 10"
    "placed (mixBatches cs) = min (10 * (length cs div 10)) (placed ?l + length (shortItems cs))"
    using l(1) by (simp_all add: mixBatches_def)
  have "placed (mixBatches cs) = 10 * length (mixBatches cs)"
    unfolding m(3) l(3) m(1) using split_lengths [of cs] by (simp add: min_def) 
  with placed_full_iff [OF m(2)] m(1) show ?thesis by simp
qed

section \<open>Mixer: sections of a batch\<close>

lemma collect_Inr:
  "\<forall>x\<in>set xs. f x = Inr (g x) \<Longrightarrow> collect (map f xs) = Inr (map g xs)"
  by (induction xs) auto

lemma batchSections_full:
  assumes "5 \<le> length b"
  shows "batchSections b =
     Inr [\<lparr>items = [itemRef (b ! 0)], layout = ''long''\<rparr>,
          \<lparr>items = [itemRef (b ! 1)], layout = ''long''\<rparr>,
          \<lparr>items = [itemRef (b ! 2)], layout = ''long''\<rparr>,
          \<lparr>items = [itemRef (b ! 3)], layout = ''long''\<rparr>,
          \<lparr>items = [itemRef (b ! 4)], layout = ''long''\<rparr>,
          \<lparr>items = map itemRef (drop 5 b), layout = ''quick links''\<rparr>]"
proof -
  have "\<forall>i\<in>set [0..<5]. longSection b i = Inr \<lparr>items = [itemRef (b ! i)], layout = ''long''\<rparr>"
    using assms by (simp add: longSection_def)
  from collect_Inr [of "[0..<5]" "longSection b", OF this]
  show ?thesis
    by (simp add: batchSections_def quickLinksSection_def upt_rec eval_nat_numeral)
qed

lemma collect_longSection_fail:
  "\<exists>i\<in>set xs. \<not> i < length b \<Longrightarrow> collect (map (longSection b) xs) = Inl TypeError"
  by (induction xs) (auto simp: longSection_def split: sum.splits)

text \<open>A batch of fewer than 5 items makes the section loop throw.\<close>

lemma batchSections_short:
  assumes "length b < 5"
  shows "batchSections b = Inl TypeError"
proof -
  have "\<exists>i\<in>set [0..<5]. \<not> i < length b" using assms by (intro bexI [of _ 4]) auto
  from collect_longSection_fail [OF this] show ?thesis by (simp add: batchSections_def)
qed

lemma mixFeedItems_full:
  "mixFeedItems cs = Inr (concat (map fullBatchSections (mixBatches cs)))"
proof -
  have "\<forall>b\<in>set (mixBatches cs). batchSections b = Inr (fullBatchSections b)"
    using mixBatches_full [of cs] batchSections_full by (simp add: fullBatchSections_def)
  from collect_Inr [OF this] show ?thesis by (simp add: mixFeedItems_def)
qed

lemmas mixer_defs = emptyBatches_def distributeItems_def placeItem_def
      pushConstrained_def pushOverflow_def checkConstraints_def titleCount_def authorCount_def
      siteCount_def subscriptionCount_def

lemma exDiverse_batches: "mixBatches exDiverse = [exDiverseLong @ exDiverseShort]"
  unfolding mixBatches_def exDiverse_short exDiverse_long
  by (simp add: exDiverse_def exDiverseLong_def exDiverseShort_def mixer_defs)

text \<open>An item is dropped only when every batch holds 10 items.\<close>

lemma batchesBefore_Suc:
  "k < length (mixOrder cs) \<Longrightarrow>
     batchesBefore cs (Suc k) = placeItem (batchesBefore cs k) (mixOrder cs ! k)"
  by (simp add: batchesBefore_def take_Suc_conv_app_nth distributeItems_def)

lemma batchesBefore_cap: "\<forall>b\<in>set (batchesBefore cs k). length b \<le> 10"
proof -
  have "\<forall>b\<in>set (emptyBatches cs). length b \<le> 10" by (simp add: emptyBatches_def)
  from distributeItems_inv [OF this, of "take k (mixOrder cs)"] show ?thesis
    by (simp add: batchesBefore_def)
qed

lemma dropped_when_full:
  assumes "k < length (mixOrder cs)" and "batchesBefore cs (Suc k) = batchesBefore cs k"
  shows "\<forall>b\<in>set (batchesBefore cs k). length b = 10"
proof -
  let ?B = "batchesBefore cs k"
  let ?x = "mixOrder cs ! k"
  have same: "placeItem ?B ?x = ?B" using assms by (simp add: batchesBefore_Suc)
  from placeItem_cases [of ?B ?x] show ?thesis
  proof
    assume "\<exists>i<length ?B. length (?B ! i) < 10 \<and> placeItem ?B ?x = ?B[i := ?B ! i @ [?x]]"
    then obtain i where i: "i < length ?B" "placeItem ?B ?x = ?B[i := ?B ! i @ [?x]]" by blast
    from i(1) have "?B[i := ?B ! i @ [?x]] ! i = ?B ! i @ [?x]" by simp
    with i(2) same have "?B ! i = ?B ! i @ [?x]" by simp
    then show ?thesis by simp
  next
    assume a: "(\<forall>b\<in>set ?B. \<not> length b < 10) \<and> placeItem ?B ?x = ?B"
    show ?thesis
    proof
      fix b assume b: "b \<in> set ?B"
      with a have "\<not> length b < 10" by blast
      moreover from b batchesBefore_cap [of cs k] have "length b \<le> 10" by blast
      ultimately show "length b = 10" by simp
    qed
  qed
qed

text \<open>
  C10. For every candidate list of at least 10 items, after the two calls of
  \<open>distributeItems\<close> there are \<open>length div 10\<close> batches and every one holds exactly
  10 items; an item is dropped (the batches are left as they were) only when every batch
  already holds 10 items. Hence the section loop never reads a missing member:
  \<open>mixFeedItems\<close> returns (no TypeError), with six sections per batch, every one either
  a "long" section of one item or a "quick links" section of exactly 5 items.
\<close>

theorem mixer_batches_full:
  assumes "10 \<le> length cs"
  shows "mixBatches cs \<noteq> [] \<and>
         length (mixBatches cs) = length cs div 10 \<and>
         (\<forall>b\<in>set (mixBatches cs). length b = 10) \<and>
         (\<forall>k<length (mixOrder cs). batchesBefore cs (Suc k) = batchesBefore cs k \<longrightarrow>
            (\<forall>b\<in>set (batchesBefore cs k). length b = 10)) \<and>
         (\<exists>sections. mixFeedItems cs = Inr sections \<and>
            length sections = 6 * (length cs div 10) \<and>
            (\<forall>s\<in>set sections. (layout s = ''long'' \<and> length (items s) = 1) \<or>
                               (layout s = ''quick links'' \<and> length (items s) = 5)))"
proof -
  note f = mixBatches_full [of cs]
  have dropped: "\<forall>k<length (mixOrder cs). batchesBefore cs (Suc k) = batchesBefore cs k \<longrightarrow>
            (\<forall>b\<in>set (batchesBefore cs k). length b = 10)"
    using dropped_when_full by blast
  have ne: "mixBatches cs \<noteq> []" using f assms by (auto simp: div_eq_0_iff)
  let ?secs = "concat (map fullBatchSections (mixBatches cs))"
  have len: "length ?secs = 6 * (length cs div 10)"
  proof -
    have "map (length \<circ> fullBatchSections) (mixBatches cs) = replicate (length (mixBatches cs)) 6"
      by (rule map_replicate_const [THEN subst]) (simp add: fullBatchSections_def comp_def)
    then show ?thesis using f by (simp add: length_concat sum_list_replicate)
  qed
  have shape: "\<forall>s\<in>set ?secs. (layout s = ''long'' \<and> length (items s) = 1) \<or>
                               (layout s = ''quick links'' \<and> length (items s) = 5)"
    using f by (auto simp: fullBatchSections_def)
  have out: "\<exists>sections. mixFeedItems cs = Inr sections \<and>
            length sections = 6 * (length cs div 10) \<and>
            (\<forall>s\<in>set sections. (layout s = ''long'' \<and> length (items s) = 1) \<or>
                               (layout s = ''quick links'' \<and> length (items s) = 5))"
    using len shape mixFeedItems_full [of cs] by blast
  from ne f dropped out show ?thesis by (intro conjI) blast+
qed

theorem mixer_batches_full_witness:
  "10 \<le> length exDiverse \<and> mixBatches exDiverse = [exDiverseLong @ exDiverseShort] \<and>
   length (exDiverseLong @ exDiverseShort) = 10 \<and>
   (\<exists>sections. mixFeedItems exDiverse = Inr sections \<and> length sections = 6)"
proof -
  have h: "10 \<le> length exDiverse" by (simp add: exDiverse_def)
  have "length exDiverse div 10 = 1" by (simp add: exDiverse_def)
  with mixer_batches_full [OF h] h exDiverse_batches show ?thesis by auto
qed

lemma concat_blocks:
  assumes "\<forall>b\<in>set bs. length (f b) = n" and "i < length bs"
  shows "take n (drop (n * i) (concat (map f bs))) = f (bs ! i)"
  using assms
proof (induction bs arbitrary: i)
  case Nil
  then show ?case by simp
next
  case (Cons b bs)
  show ?case
  proof (cases i)
    case 0
    with Cons.prems show ?thesis by simp
  next
    case (Suc m)
    with Cons.prems have "take n (drop (n * m) (concat (map f bs))) = f (bs ! m)"
      by (intro Cons.IH) auto
    with Suc Cons.prems(1) show ?thesis by simp
  qed
qed

text \<open>
  C6. For the \<open>i\<close>-th batch of a Mixer run, if it received at least 5 items, the Mixer
  returns and the sections at positions \<open>6 i .. 6 i + 5\<close> of its output are five "long"
  sections, the \<open>n\<close>-th holding the one reference whose id and type are the id and the
  type of the batch's \<open>n\<close>-th item, followed by one "quick links" section holding, in
  order, the references (id and type) of the batch's items from position 5 on, which are
  at most 5.
\<close>

theorem mixer_full_batch_sections:
  assumes "i < length (mixBatches cs)" and "5 \<le> length (mixBatches cs ! i)"
  shows "\<exists>sections.
           mixFeedItems cs = Inr sections \<and>
           take 6 (drop (6 * i) sections) =
             [\<lparr>items = [\<lparr>item_id = cid (mixBatches cs ! i ! 0),
                         item_type = ctype (mixBatches cs ! i ! 0)\<rparr>], layout = ''long''\<rparr>,
              \<lparr>items = [\<lparr>item_id = cid (mixBatches cs ! i ! 1),
                         item_type = ctype (mixBatches cs ! i ! 1)\<rparr>], layout = ''long''\<rparr>,
              \<lparr>items = [\<lparr>item_id = cid (mixBatches cs ! i ! 2),
                         item_type = ctype (mixBatches cs ! i ! 2)\<rparr>], layout = ''long''\<rparr>,
              \<lparr>items = [\<lparr>item_id = cid (mixBatches cs ! i ! 3),
                         item_type = ctype (mixBatches cs ! i ! 3)\<rparr>], layout = ''long''\<rparr>,
              \<lparr>items = [\<lparr>item_id = cid (mixBatches cs ! i ! 4),
                         item_type = ctype (mixBatches cs ! i ! 4)\<rparr>], layout = ''long''\<rparr>,
              \<lparr>items = map (\<lambda>c. \<lparr>item_id = cid c, item_type = ctype c\<rparr>)
                         (drop 5 (mixBatches cs ! i)),
                layout = ''quick links''\<rparr>] \<and>
           length (drop 5 (mixBatches cs ! i)) \<le> 5 \<and>
           batchSections (mixBatches cs ! i) = Inr (take 6 (drop (6 * i) sections))"
proof -
  let ?b = "mixBatches cs ! i"
  let ?secs = "concat (map fullBatchSections (mixBatches cs))"
  have "\<forall>b\<in>set (mixBatches cs). length (fullBatchSections b) = 6"
    by (simp add: fullBatchSections_def)
  from concat_blocks [OF this assms(1)]
  have blk: "take 6 (drop (6 * i) ?secs) = fullBatchSections ?b" .
  have ref: "itemRef = (\<lambda>c. \<lparr>item_id = cid c, item_type = ctype c\<rparr>)"
    by (rule ext) (simp add: itemRef_def)
  have shape: "fullBatchSections ?b =
      [\<lparr>items = [\<lparr>item_id = cid (?b ! 0), item_type = ctype (?b ! 0)\<rparr>], layout = ''long''\<rparr>,
       \<lparr>items = [\<lparr>item_id = cid (?b ! 1), item_type = ctype (?b ! 1)\<rparr>], layout = ''long''\<rparr>,
       \<lparr>items = [\<lparr>item_id = cid (?b ! 2), item_type = ctype (?b ! 2)\<rparr>], layout = ''long''\<rparr>,
       \<lparr>items = [\<lparr>item_id = cid (?b ! 3), item_type = ctype (?b ! 3)\<rparr>], layout = ''long''\<rparr>,
       \<lparr>items = [\<lparr>item_id = cid (?b ! 4), item_type = ctype (?b ! 4)\<rparr>], layout = ''long''\<rparr>,
       \<lparr>items = map (\<lambda>c. \<lparr>item_id = cid c, item_type = ctype c\<rparr>) (drop 5 ?b),
         layout = ''quick links''\<rparr>]"
    unfolding fullBatchSections_def ref by simp
  have "?b \<in> set (mixBatches cs)" using assms(1) by simp
  then have "length ?b = 10" using mixBatches_full [of cs] by blast
  then have q: "length (drop 5 ?b) \<le> 5" by simp
  have bs: "batchSections ?b = Inr (fullBatchSections ?b)"
    using batchSections_full [OF assms(2)] by (simp add: fullBatchSections_def)
  from mixFeedItems_full [of cs] blk shape q bs show ?thesis by simp
qed

theorem mixer_full_batch_sections_witness:
  "0 < length (mixBatches exDiverse) \<and> 5 \<le> length (mixBatches exDiverse ! 0) \<and>
   (\<exists>sections. mixFeedItems exDiverse = Inr sections \<and>
      take 6 (drop (6 * 0) sections) =
        [\<lparr>items = [\<lparr>item_id = ''c-0'', item_type = ''library_item''\<rparr>], layout = ''long''\<rparr>,
         \<lparr>items = [\<lparr>item_id = ''c-2'', item_type = ''library_item''\<rparr>], layout = ''long''\<rparr>,
         \<lparr>items = [\<lparr>item_id = ''c-4'', item_type = ''library_item''\<rparr>], layout = ''long''\<rparr>,
         \<lparr>items = [\<lparr>item_id = ''c-6'', item_type = ''library_item''\<rparr>], layout = ''long''\<rparr>,
         \<lparr>items = [\<lparr>item_id = ''c-8'', item_type = ''library_item''\<rparr>], layout = ''long''\<rparr>,
         \<lparr>items = [\<lparr>item_id = ''c-1'', item_type = ''library_item''\<rparr>,
                   \<lparr>item_id = ''c-3'', item_type = ''library_item''\<rparr>,
                   \<lparr>item_id = ''c-5'', item_type = ''library_item''\<rparr>,
                   \<lparr>item_id = ''c-7'', item_type = ''library_item''\<rparr>,
                   \<lparr>item_id = ''c-9'', item_type = ''library_item''\<rparr>],
           layout = ''quick links''\<rparr>])"
proof -
  have h1: "0 < length (mixBatches exDiverse)" by (simp add: exDiverse_batches)
  have h2: "5 \<le> length (mixBatches exDiverse ! 0)"
    by (simp add: exDiverse_batches exDiverseLong_def)
  have b: "mixBatches exDiverse ! 0 = exDiverseLong @ exDiverseShort"
    by (simp add: exDiverse_batches)
  have e: "cid ((exDiverseLong @ exDiverseShort) ! 0) = ''c-0''"
      "cid ((exDiverseLong @ exDiverseShort) ! 1) = ''c-2''"
      "cid ((exDiverseLong @ exDiverseShort) ! 2) = ''c-4''"
      "cid ((exDiverseLong @ exDiverseShort) ! 3) = ''c-6''"
      "cid ((exDiverseLong @ exDiverseShort) ! 4) = ''c-8''"
      "ctype ((exDiverseLong @ exDiverseShort) ! 0) = ''library_item''"
      "ctype ((exDiverseLong @ exDiverseShort) ! 1) = ''library_item''"
      "ctype ((exDiverseLong @ exDiverseShort) ! 2) = ''library_item''"
      "ctype ((exDiverseLong @ exDiverseShort) ! 3) = ''library_item''"
      "ctype ((exDiverseLong @ exDiverseShort) ! 4) = ''library_item''"
      "map (\<lambda>c. \<lparr>item_id = cid c, item_type = ctype c\<rparr>) (drop 5 (exDiverseLong @ exDiverseShort)) =
         [\<lparr>item_id = ''c-1'', item_type = ''library_item''\<rparr>,
          \<lparr>item_id = ''c-3'', item_type = ''library_item''\<rparr>,
          \<lparr>item_id = ''c-5'', item_type = ''library_item''\<rparr>,
          \<lparr>item_id = ''c-7'', item_type = ''library_item''\<rparr>,
          \<lparr>item_id = ''c-9'', item_type = ''library_item''\<rparr>]"
    by (simp_all add: exDiverseLong_def exDiverseShort_def)
  from mixer_full_batch_sections [OF h1 h2] show ?thesis
    unfolding b e using h1 h2 b by auto
qed

section \<open>Mixer: diversity of constrained placements\<close>

lemma placeItem_prefix: "i < length bs \<Longrightarrow> prefix (bs ! i) (placeItem bs x ! i)"
  using placeItem_cases [of bs x] by (auto simp: nth_list_update)

lemma distributeItems_length [simp]: "length (distributeItems xs bs) = length bs"
  by (induction xs arbitrary: bs) (simp_all add: distributeItems_def)

lemma distributeItems_prefix:
  "i < length bs \<Longrightarrow> prefix (bs ! i) (distributeItems xs bs ! i)"
proof (induction xs arbitrary: bs)
  case Nil
  then show ?case by (simp add: distributeItems_def)
next
  case (Cons x xs)
  have step: "distributeItems (x # xs) bs = distributeItems xs (placeItem bs x)"
    by (simp add: distributeItems_def)
  from Cons.prems have "prefix (placeItem bs x ! i) (distributeItems xs (placeItem bs x) ! i)"
    by (intro Cons.IH) simp
  with placeItem_prefix [OF Cons.prems, of x] show ?case
    unfolding step by (rule prefix_order.trans)
qed

lemma mixBatches_order: "mixBatches cs = distributeItems (mixOrder cs) (emptyBatches cs)"
  by (simp add: mixBatches_def mixOrder_def distributeItems_append)

text \<open>
  C2 (as amended). The \<open>k\<close>-th item the Mixer places (long items first, then short
  items), when the constrained first-fit rule accepts it, stands at one of the first five
  positions of a batch of the result, and the members before it in that batch are the
  batch as it was when the item was placed: none of them has its title, at most one has
  its author, at most one its site name and at most one its subscription name (two absent
  values count as the same value). Items placed by the overflow rule are not bounded.
\<close>

theorem mixer_constrained_placement:
  assumes "k < length (mixOrder cs)" and "placedConstrained cs k"
  shows "\<exists>i j. i < length (mixBatches cs) \<and> j < 5 \<and> j < length (mixBatches cs ! i) \<and>
           mixBatches cs ! i ! j = mixOrder cs ! k \<and>
           take j (mixBatches cs ! i) = batchesBefore cs k ! i \<and>
           (\<forall>m\<in>set (take j (mixBatches cs ! i)). title m \<noteq> title (mixOrder cs ! k)) \<and>
           length (filter (\<lambda>m. author m = author (mixOrder cs ! k))
                     (take j (mixBatches cs ! i))) \<le> 1 \<and>
           length (filter (\<lambda>m. siteName m = siteName (mixOrder cs ! k))
                     (take j (mixBatches cs ! i))) \<le> 1 \<and>
           length (filter (\<lambda>m. map_option sub_name (subscription m) =
                                map_option sub_name (subscription (mixOrder cs ! k)))
                     (take j (mixBatches cs ! i))) \<le> 1"
proof -
  let ?x = "mixOrder cs ! k"
  let ?B = "batchesBefore cs k"
  from assms(2) obtain B' where B': "pushConstrained ?x ?B = Some B'"
    by (auto simp: placedConstrained_def)
  from pushFirst_Some [OF B' [unfolded pushConstrained_def]] obtain i where
    i: "i < length ?B" "length (?B ! i) < 5" "checkConstraints (?B ! i) ?x"
       "B' = ?B[i := ?B ! i @ [?x]]"
    by blast
  have place: "placeItem ?B ?x = B'" using B' by (simp add: placeItem_def)
  have "mixOrder cs = take k (mixOrder cs) @ ?x # drop (Suc k) (mixOrder cs)"
    using assms(1) by (simp add: id_take_nth_drop [symmetric])
  then have "mixBatches cs =
      distributeItems (?x # drop (Suc k) (mixOrder cs)) ?B"
    unfolding mixBatches_order batchesBefore_def by (metis distributeItems_append)
  then have fin: "mixBatches cs = distributeItems (drop (Suc k) (mixOrder cs)) B'"
    using place by (simp add: distributeItems_def)
  have iB': "i < length B'" using i(1,4) by simp
  have "prefix (B' ! i) (mixBatches cs ! i)"
    unfolding fin using iB' by (rule distributeItems_prefix)
  moreover have "B' ! i = ?B ! i @ [?x]" using i(1,4) by simp
  ultimately obtain r where r: "mixBatches cs ! i = ?B ! i @ ?x # r"
    by (auto simp: prefix_def)
  let ?j = "length (?B ! i)"
  have len: "i < length (mixBatches cs)" unfolding fin using iB' by simp
  have pos: "?j < length (mixBatches cs ! i)" "mixBatches cs ! i ! ?j = ?x"
       "take ?j (mixBatches cs ! i) = ?B ! i"
    unfolding r by simp_all
  from i(3) have t: "length (filter (\<lambda>m. title m = title ?x) (?B ! i)) = 0"
    and a: "length (filter (\<lambda>m. author m = author ?x) (?B ! i)) \<le> 1"
    and s: "length (filter (\<lambda>m. siteName m = siteName ?x) (?B ! i)) \<le> 1"
    and u: "length (filter (\<lambda>m. map_option sub_name (subscription m) =
                               map_option sub_name (subscription ?x)) (?B ! i)) \<le> 1"
    by (simp_all add: checkConstraints_def titleCount_def authorCount_def siteCount_def
        subscriptionCount_def)
  from t have t': "\<forall>m\<in>set (?B ! i). title m \<noteq> title ?x"
    by (simp add: filter_empty_conv)
  show ?thesis
    apply (rule exI [of _ i], rule exI [of _ ?j])
    unfolding pos(3)
    using len i(2) pos(1,2) t' a s u by simp
qed

lemma exShared_median: "medianWordCount exShared = Some 650"
  by (simp add: medianWordCount_def exShared_def)

lemma exShared_long: "longItems exShared = exSharedLong"
  unfolding longItems_filter exShared_median
  by (simp add: belowMedian_def exShared_def exSharedLong_def)

lemma exShared_short: "shortItems exShared = exDiverseShort"
  unfolding shortItems_filter exShared_median
  by (simp add: belowMedian_def exShared_def exDiverseShort_def)

lemma exShared_batches: "mixBatches exShared = [exSharedLong @ exDiverseShort]"
  unfolding mixBatches_def exShared_short exShared_long
  by (simp add: exShared_def exSharedLong_def exDiverseShort_def mixer_defs)

theorem mixer_constrained_placement_witness:
  "1 < length (mixOrder exShared) \<and> placedConstrained exShared 1 \<and>
   mixOrder exShared ! 1 = (exCandidate ''2'' ''Title 2'' 700) \<lparr>author := Some ''author-0''\<rparr> \<and>
   mixBatches exShared ! 0 ! 1 = mixOrder exShared ! 1 \<and>
   take 1 (mixBatches exShared ! 0) = [exCandidate ''0'' ''Title 0'' 900] \<and>
   author (exCandidate ''0'' ''Title 0'' 900) = author (mixOrder exShared ! 1) \<and>
   (\<exists>i j. i < length (mixBatches exShared) \<and> j < 5 \<and> j < length (mixBatches exShared ! i) \<and>
      mixBatches exShared ! i ! j = mixOrder exShared ! 1 \<and>
      (\<forall>m\<in>set (take j (mixBatches exShared ! i)). title m \<noteq> ''Title 2'') \<and>
      length (filter (\<lambda>m. author m = Some ''author-0'') (take j (mixBatches exShared ! i))) \<le> 1 \<and>
      length (filter (\<lambda>m. siteName m = Some ''site-2'') (take j (mixBatches exShared ! i))) \<le> 1 \<and>
      length (filter (\<lambda>m. map_option sub_name (subscription m) = Some ''sub-2'')
                (take j (mixBatches exShared ! i))) \<le> 1)"
proof -
  let ?x = "(exCandidate ''2'' ''Title 2'' 700) \<lparr>author := Some ''author-0''\<rparr>"
  have o: "mixOrder exShared = exSharedLong @ exDiverseShort"
    by (simp add: mixOrder_def exShared_long exShared_short)
  have h1: "1 < length (mixOrder exShared)"
    unfolding o by (simp add: exSharedLong_def)
  have x: "mixOrder exShared ! 1 = ?x"
    unfolding o by (simp add: exSharedLong_def)
  have h2: "placedConstrained exShared 1"
    unfolding placedConstrained_def batchesBefore_def x unfolding o
    by (simp add: exShared_def exSharedLong_def mixer_defs)
  have f: "title ?x = ''Title 2''" "author ?x = Some ''author-0''" "siteName ?x = Some ''site-2''"
    "map_option sub_name (subscription ?x) = Some ''sub-2''"
    by simp_all
  have c: "mixBatches exShared ! 0 ! 1 = ?x"
    "take 1 (mixBatches exShared ! 0) = [exCandidate ''0'' ''Title 0'' 900]"
    "author (exCandidate ''0'' ''Title 0'' 900) = author ?x"
    by (simp_all add: exShared_batches exSharedLong_def)
  from mixer_constrained_placement [OF h1 h2]
  have "\<exists>i j. i < length (mixBatches exShared) \<and> j < 5 \<and> j < length (mixBatches exShared ! i) \<and>
      mixBatches exShared ! i ! j = ?x \<and>
      (\<forall>m\<in>set (take j (mixBatches exShared ! i)). title m \<noteq> ''Title 2'') \<and>
      length (filter (\<lambda>m. author m = Some ''author-0'') (take j (mixBatches exShared ! i))) \<le> 1 \<and>
      length (filter (\<lambda>m. siteName m = Some ''site-2'') (take j (mixBatches exShared ! i))) \<le> 1 \<and>
      length (filter (\<lambda>m. map_option sub_name (subscription m) = Some ''sub-2'')
                (take j (mixBatches exShared ! i))) \<le> 1"
    unfolding x f by blast
  with h1 h2 x c show ?thesis by simp
qed

lemma ex_median: "medianWordCount exSameTitle = Some 105"
  by (simp add: medianWordCount_def exSameTitle_def)

lemma ex_short:
  "shortItems exSameTitle =
     [exCandidate ''0'' ''Same title'' 100, exCandidate ''1'' ''Same title'' 101,
      exCandidate ''2'' ''Same title'' 102, exCandidate ''3'' ''Same title'' 103,
      exCandidate ''4'' ''Same title'' 104]"
  unfolding shortItems_filter ex_median
  by (simp add: belowMedian_def exSameTitle_def)

lemma ex_long:
  "longItems exSameTitle =
     [exCandidate ''5'' ''Same title'' 105, exCandidate ''6'' ''Same title'' 106,
      exCandidate ''7'' ''Same title'' 107, exCandidate ''8'' ''Same title'' 108,
      exCandidate ''9'' ''Same title'' 109]"
  unfolding longItems_filter ex_median
  by (simp add: belowMedian_def exSameTitle_def)

lemma ex_batches: "mixBatches exSameTitle = [exSameTitleBatch]"
  unfolding mixBatches_def ex_short ex_long
  by (simp add: emptyBatches_def exSameTitle_def exSameTitleBatch_def distributeItems_def placeItem_def
      pushConstrained_def pushOverflow_def checkConstraints_def titleCount_def authorCount_def
      siteCount_def subscriptionCount_def)

text \<open>
  The claim as stated fails: ten candidates with ten identifiers and one title end up in
  one batch, the first by the constrained rule and the nine others by the overflow rule.
\<close>

theorem mixer_diversity_counterexample:
  "mixBatches exSameTitle = [exSameTitleBatch] \<and>
   cid (exSameTitleBatch ! 0) \<noteq> cid (exSameTitleBatch ! 1) \<and>
   title (exSameTitleBatch ! 0) = title (exSameTitleBatch ! 1) \<and>
   length (filter (\<lambda>m. title m = ''Same title'') exSameTitleBatch) = 10 \<and>
   \<not> claimedDiversity exSameTitleBatch"
  using ex_batches
  by (simp add: exSameTitleBatch_def claimedDiversity_def)

section \<open>Feed Store: capacity and expiry\<close>

lemma trim_top: "zremrangebyrank z 0 (- (MAX_FEED_ITEMS + 1)) = drop (length z - 500) z"
proof (cases "length z \<le> 500")
  case True
  then show ?thesis by (simp add: zremrangebyrank_def MAX_FEED_ITEMS_def Let_def)
next
  case False
  then have "nat (int (length z) - 501) + 1 = length z - 500" by simp
  with False show ?thesis
    by (simp add: zremrangebyrank_def MAX_FEED_ITEMS_def Let_def)
qed

lemma zadd1_valid:
  assumes "validZset z"
  shows "validZset (zadd1 z sm)"
proof -
  let ?zs = "filter (\<lambda>e. snd e \<noteq> snd sm) z"
  have s: "sorted ?zs" using assms by (simp add: validZset_def sorted_wrt_filter)
  have d: "distinct (map snd ?zs)" using assms by (simp add: validZset_def distinct_map_filter)
  have n: "snd sm \<notin> set (map snd ?zs)" by auto
  have "mset (map snd (insort sm ?zs)) = mset (snd sm # map snd ?zs)" by simp
  then have "distinct (map snd (insort sm ?zs)) = distinct (snd sm # map snd ?zs)"
    by (rule mset_eq_imp_distinct_iff)
  with d n have "distinct (map snd (insort sm ?zs))" by simp
  with s show ?thesis by (simp add: validZset_def zadd1_def sorted_insort)
qed

lemma zadd_valid: "validZset z \<Longrightarrow> validZset (zadd z sms)"
  unfolding zadd_def by (induction sms arbitrary: z) (simp_all add: zadd1_valid)

lemma expire_suffix:
  "sorted (z :: zset) \<Longrightarrow> \<exists>pre. z = pre @ zremrangebyscore z mx \<and> (\<forall>e\<in>set pre. fst e \<le> mx)"
proof (induction z)
  case Nil
  then show ?case by (simp add: zremrangebyscore_def)
next
  case (Cons y ys)
  show ?case
  proof (cases "fst y \<le> mx")
    case True
    from Cons obtain pre where "ys = pre @ zremrangebyscore ys mx" "\<forall>e\<in>set pre. fst e \<le> mx"
      by auto
    with True show ?thesis
      by (intro exI [of _ "y # pre"]) (simp add: zremrangebyscore_def)
  next
    case False
    have "\<forall>e\<in>set ys. \<not> fst e \<le> mx"
    proof
      fix e assume "e \<in> set ys"
      with Cons.prems have "y \<le> e" by simp
      then have "fst y \<le> fst e" by (auto simp: less_eq_prod_def)
      with False show "\<not> fst e \<le> mx" by simp
    qed
    with False have "zremrangebyscore (y # ys) mx = y # ys"
      by (simp add: zremrangebyscore_def)
    then show ?thesis by (intro exI [of _ "[]"]) simp
  qed
qed

lemma append_store:
  "appendSectionsToFeed stringify now (Some r) userId sections =
     (Inr (), Some (r(redisKey userId :=
        zremrangebyscore
          (drop (length (zadd (r (redisKey userId)) (scoreMembers stringify now sections)) - 500)
             (zadd (r (redisKey userId)) (scoreMembers stringify now sections)))
          (now (length sections)))))"
  unfolding appendSectionsToFeed_def Let_def trim_top by simp

lemma expire_length: "length (zremrangebyscore z mx) \<le> length z"
  by (simp add: zremrangebyscore_def)

lemma expire_scores: "\<forall>e\<in>set (zremrangebyscore z mx). mx < fst e"
  by (auto simp: zremrangebyscore_def)

lemma retrieve_length: "length (zrevrangebyscore z mx cnt) \<le> length z"
proof -
  let ?hits = "rev (filter (\<lambda>e. case mx of None \<Rightarrow> True | Some m \<Rightarrow> fst e \<le> m) z)"
  have h: "length ?hits \<le> length z" by simp
  have "length (take (nat cnt) ?hits) \<le> length ?hits" by simp
  with h have "length (take (nat cnt) ?hits) \<le> length z" by (rule le_trans [rotated])
  with h show ?thesis unfolding zrevrangebyscore_def Let_def by (cases "cnt < 0") simp_all
qed

text \<open>One append on a well-formed sorted set.\<close>

lemma append_step:
  assumes "validZset (r (redisKey userId))"
  shows "\<exists>r'. appendSectionsToFeed stringify now (Some r) userId sections = (Inr (), Some r') \<and>
           validZset (r' (redisKey userId)) \<and>
           length (r' (redisKey userId)) \<le> 500 \<and>
           (\<forall>e\<in>set (r' (redisKey userId)). now (length sections) < fst e) \<and>
           (\<exists>removed. zadd (r (redisKey userId)) (scoreMembers stringify now sections) =
                         removed @ r' (redisKey userId) \<and>
                       (\<forall>e\<in>set removed. \<forall>k\<in>set (r' (redisKey userId)). fst e \<le> fst k))"
proof -
  let ?key = "redisKey userId"
  let ?m = "zadd (r ?key) (scoreMembers stringify now sections)"
  let ?t = "drop (length ?m - 500) ?m"
  let ?z = "zremrangebyscore ?t (now (length sections))"
  have vm: "validZset ?m" using assms by (rule zadd_valid)
  then have sm: "sorted ?m" and dm: "distinct (map snd ?m)" by (simp_all add: validZset_def)
  have st: "sorted ?t" using sm by (rule sorted_wrt_drop)
  from expire_suffix [OF st, of "now (length sections)"] obtain pre where
    pre: "?t = pre @ ?z" by blast
  have m: "?m = (take (length ?m - 500) ?m @ pre) @ ?z"
    using pre append_take_drop_id [of "length ?m - 500" ?m] by simp
  have sz: "sorted ?z" using st by (simp add: zremrangebyscore_def sorted_wrt_filter)
  have "distinct (map snd ?t)" using dm by (simp add: distinct_drop drop_map [symmetric])
  then have dz: "distinct (map snd ?z)" by (simp add: zremrangebyscore_def distinct_map_filter)
  have len: "length ?z \<le> 500" using expire_length [of ?t "now (length sections)"] by simp
  have ord: "\<forall>e\<in>set (take (length ?m - 500) ?m @ pre). \<forall>k\<in>set ?z. fst e \<le> fst k"
  proof (intro ballI)
    fix e k assume "e \<in> set (take (length ?m - 500) ?m @ pre)" "k \<in> set ?z"
    moreover from sm m have "sorted ((take (length ?m - 500) ?m @ pre) @ ?z)" by simp
    ultimately have "e \<le> k" unfolding sorted_append [of "take (length ?m - 500) ?m @ pre"] by blast
    then show "fst e \<le> fst k" by (auto simp: less_eq_prod_def)
  qed
  let ?r' = "r(?key := ?z)"
  have k: "?r' ?key = ?z" by simp
  have v: "validZset (?r' ?key)" unfolding k using sz dz by (simp add: validZset_def)
  have e: "\<forall>e\<in>set (?r' ?key). now (length sections) < fst e"
    unfolding k by (rule expire_scores)
  have t: "\<exists>removed. ?m = removed @ ?r' ?key \<and> (\<forall>e\<in>set removed. \<forall>k\<in>set (?r' ?key). fst e \<le> fst k)"
    unfolding k using m ord by blast
  have l: "length (?r' ?key) \<le> 500" unfolding k by (rule len)
  show ?thesis
    by (rule exI [of _ ?r']) (intro conjI append_store v l e t)
qed

lemma appendAll_append:
  "appendAll stringify userId rc (xs @ ys) =
     appendAll stringify userId (appendAll stringify userId rc xs) ys"
  by (induction xs arbitrary: rc) auto

lemma appendAll_valid:
  "validZset (r (redisKey userId)) \<Longrightarrow>
     \<exists>r'. appendAll stringify userId (Some r) calls = Some r' \<and> validZset (r' (redisKey userId))"
proof (induction calls arbitrary: r)
  case Nil
  then show ?case by simp
next
  case (Cons c calls)
  obtain now sections where c: "c = (now, sections)" by (cases c)
  from append_step [where r = r and userId = userId and stringify = stringify and now = now
      and sections = sections, OF Cons.prems] obtain r1 where
    r1: "appendSectionsToFeed stringify now (Some r) userId sections = (Inr (), Some r1)"
        "validZset (r1 (redisKey userId))"
    by blast
  from Cons.IH [where r = r1, OF r1(2)] r1(1) c show ?case by simp
qed

lemmas store_defs = appendSectionsToFeed_def getJustReadFeedSections_def scoreMembers_def
  zadd_def zadd1_def zremrangebyrank_def zremrangebyscore_def zrevrangebyscore_def
  MAX_FEED_ITEMS_def exStringify_def exSectionA_def exSectionB_def exNow_def exRedis_def
  enumerate_eq_zip less_eq_prod_def

lemma ex_parse: "exParse (exStringify exSectionA) = exSectionA" "exParse (exStringify exSectionB) = exSectionB"
  by (simp_all add: exParse_def) (simp add: exStringify_def exSectionA_def exSectionB_def)

lemma ex_now_mono: "\<forall>i j. i \<le> j \<longrightarrow> exNow t i \<le> exNow t j"
  by (simp add: exNow_def)

text \<open>The contents of the set after \<open>ZADD\<close>, and the top of a strictly ascending list.\<close>

lemma scoreMembers_appended: "scoreMembers stringify now sections = appendedEntries stringify now sections"
  by (rule nth_equalityI) (simp_all add: scoreMembers_def appendedEntries_def nth_enumerate_eq)

lemma zadd1_set: "set (zadd1 w x) = {e \<in> set w. snd e \<noteq> snd x} \<union> {x}"
  by (auto simp: zadd1_def set_insort_key)

lemma insertedSet_snoc:
  "insertedSet z (ps @ [x]) = {e \<in> insertedSet z ps. snd e \<noteq> snd x} \<union> {x}"
  unfolding insertedSet_def by (auto split: if_splits)

lemma zadd_set: "set (zadd z pairs) = insertedSet z pairs"
proof (induction pairs rule: rev_induct)
  case Nil
  then show ?case by (simp add: zadd_def insertedSet_def)
next
  case (snoc x ps)
  have "zadd z (ps @ [x]) = zadd1 (zadd z ps) x" by (simp add: zadd_def)
  then show ?case by (simp only: zadd1_set snoc insertedSet_snoc)
qed

lemma above_in_sorted:
  fixes y :: "'a :: linorder"
  assumes "sorted_wrt (<) (y # ys)" and "e \<in> set ys"
  shows "{x \<in> set (y # ys). e < x} = {x \<in> set ys. e < x}"
proof -
  from assms have "y < e" by simp
  then have "\<not> e < y" by (rule less_not_sym)
  then show ?thesis by auto
qed

lemma Collect_Cons:
  "{e \<in> set (y # ys). P e} = (if P y then {y} else {}) \<union> {e \<in> set ys. P e}"
  by auto

lemma top_of_sorted:
  fixes xs :: "('a :: linorder) list"
  assumes "sorted_wrt (<) xs" and "0 < k"
  shows "set (drop (length xs - k) xs) = {e \<in> set xs. card {x \<in> set xs. e < x} < k}"
  using assms(1)
proof (induction xs)
  case Nil
  then show ?case by simp
next
  case (Cons y ys)
  then have sy: "sorted_wrt (<) ys" and ylt: "\<forall>e\<in>set ys. y < e" by simp_all
  have dy: "distinct ys" using sy strict_sorted_iff by blast
  have ih: "set (drop (length ys - k) ys) = {e \<in> set ys. card {x \<in> set ys. e < x} < k}"
    using Cons.IH sy by simp
  have "\<And>e. e \<in> set ys \<Longrightarrow> card {x \<in> set (y # ys). e < x} = card {x \<in> set ys. e < x}"
    using above_in_sorted [OF Cons.prems] by simp
  then have rest: "{e \<in> set ys. card {x \<in> set (y # ys). e < x} < k} =
              {e \<in> set ys. card {x \<in> set ys. e < x} < k}"
    by (intro Collect_cong conj_cong refl) simp
  have ytop: "{x \<in> set (y # ys). y < x} = set ys" using ylt by auto
  have cy: "card {x \<in> set (y # ys). y < x} = length ys"
    unfolding ytop using dy by (rule distinct_card)
  have split: "{e \<in> set (y # ys). card {x \<in> set (y # ys). e < x} < k} =
      (if length ys < k then {y} else {}) \<union> {e \<in> set ys. card {x \<in> set ys. e < x} < k}"
    unfolding Collect_Cons [where P = "\<lambda>e. card {x \<in> set (y # ys). e < x} < k"] cy rest ..
  show ?case
  proof (cases "length ys < k")
    case True
    then have "length (y # ys) - k = 0" "length ys - k = 0" by simp_all
    then have "set (drop (length (y # ys) - k) (y # ys)) = {y} \<union> set (drop (length ys - k) ys)"
      by simp
    then show ?thesis unfolding split ih using True by simp
  next
    case False
    then have "length (y # ys) - k = Suc (length ys - k)" by simp
    then have "set (drop (length (y # ys) - k) (y # ys)) = set (drop (length ys - k) ys)"
      by simp
    then show ?thesis unfolding split ih using False by simp
  qed
qed

lemma insort_last: "\<forall>y\<in>set z. y < x \<Longrightarrow> insort x z = z @ [x]"
proof (induction z)
  case Nil
  then show ?case by simp
next
  case (Cons y ys)
  then have "\<not> x \<le> y" and "insort x ys = ys @ [x]" by (simp_all add: not_le)
  then show ?case by simp
qed

lemma zadd_fresh:
  "sorted_wrt (\<lambda>a b. fst a < fst b) (z @ xs) \<Longrightarrow> distinct (map snd (z @ xs)) \<Longrightarrow>
     zadd z xs = z @ (xs :: zset)"
  unfolding zadd_def
proof (induction xs arbitrary: z)
  case Nil
  then show ?case by simp
next
  case (Cons x xs)
  have "\<forall>e\<in>set z. snd e \<noteq> snd x"
  proof
    fix e assume "e \<in> set z"
    then have "snd e \<in> set (map snd z)" by simp
    moreover from Cons.prems(2) have "snd x \<notin> set (map snd z)" by simp
    ultimately show "snd e \<noteq> snd x" by metis
  qed
  then have f: "filter (\<lambda>e. snd e \<noteq> snd x) z = z" by (simp only: filter_True)
  have "\<forall>y\<in>set z. fst y < fst x" using Cons.prems(1) by (simp add: sorted_wrt_append)
  then have "\<forall>y\<in>set z. y < x" by (simp add: less_prod_def)
  then have "insort x z = z @ [x]" by (rule insort_last)
  then have one: "zadd1 z x = z @ [x]" unfolding zadd1_def f .
  have p1: "sorted_wrt (\<lambda>a b. fst a < fst b) ((z @ [x]) @ xs)" using Cons.prems(1) by simp
  have p2: "distinct (map snd ((z @ [x]) @ xs))" using Cons.prems(2) by simp
  have "foldl zadd1 (z @ [x]) xs = (z @ [x]) @ xs" using p1 p2 by (rule Cons.IH)
  with one show ?case by simp
qed

lemma scoreMembers_length [simp]: "length (scoreMembers stringify now sections) = length sections"
  by (simp add: scoreMembers_def)

lemma scoreMembers_nth:
  "i < length sections \<Longrightarrow>
     scoreMembers stringify now sections ! i =
       (now i + int i + 86400000, stringify (sections ! i))"
  by (simp add: scoreMembers_def nth_enumerate_eq)

lemma scoreMembers_members: "map snd (scoreMembers stringify now sections) = map stringify sections"
  by (rule nth_equalityI) (simp_all add: scoreMembers_nth)

lemma scoreMembers_increasing:
  assumes "\<forall>i j. i \<le> j \<longrightarrow> now i \<le> now j"
  shows "sorted_wrt (\<lambda>a b. fst a < fst b) (scoreMembers stringify now sections)"
  unfolding sorted_wrt_iff_nth_less
proof (intro allI impI)
  fix i j assume "i < j" "j < length (scoreMembers stringify now sections)"
  then have ij: "i < length sections" "j < length sections" "i < j" by simp_all
  from assms ij(3) have "now i \<le> now j" by simp
  with ij show "fst (scoreMembers stringify now sections ! i)
        < fst (scoreMembers stringify now sections ! j)"
    by (simp add: scoreMembers_nth)
qed

lemma trim_expire_length:
  assumes "z = pre @ L" and "\<forall>e\<in>set pre. fst e \<le> t" and "\<forall>e\<in>set L. \<not> fst e \<le> t"
  shows "length (zremrangebyscore (drop (length z - 500) z) t) = min 500 (length L)"
proof -
  let ?k = "length (pre @ L) - 500"
  have a: "filter (\<lambda>e. \<not> fst e \<le> t) (drop ?k pre) = []"
    using assms(2) by (auto simp: filter_empty_conv dest: in_set_dropD)
  have b: "filter (\<lambda>e. \<not> fst e \<le> t) (drop (?k - length pre) L) = drop (?k - length pre) L"
    using assms(3) by (auto simp: filter_id_conv dest: in_set_dropD)
  have "zremrangebyscore (drop ?k (pre @ L)) t = drop (?k - length pre) L"
    unfolding zremrangebyscore_def drop_append filter_append a b by simp
  then show ?thesis unfolding assms(1) by auto
qed

lemma append_exact:
  assumes "validZset (r (redisKey userId))"
  shows "\<exists>r'. appendSectionsToFeed stringify now (Some r) userId sections = (Inr (), Some r') \<and>
           r' (redisKey userId) =
             sorted_list_of_set
               (liveTop (insertedSet (r (redisKey userId)) (appendedEntries stringify now sections))
                  (now (length sections))) \<and>
           length (r' (redisKey userId)) =
             min 500 (card {e \<in> insertedSet (r (redisKey userId)) (appendedEntries stringify now sections).
                              now (length sections) < fst e})"
proof -
  let ?key = "redisKey userId"
  let ?m = "zadd (r ?key) (scoreMembers stringify now sections)"
  let ?t = "drop (length ?m - 500) ?m"
  let ?z = "zremrangebyscore ?t (now (length sections))"
  let ?M = "insertedSet (r ?key) (appendedEntries stringify now sections)"
  let ?L = "zremrangebyscore ?m (now (length sections))"
  have vm: "validZset ?m" using assms by (rule zadd_valid)
  then have sm: "sorted ?m" and dm: "distinct (map snd ?m)" by (simp_all add: validZset_def)
  from dm have dd: "distinct ?m" by (simp add: distinct_map)
  with sm have ss: "sorted_wrt (<) ?m" using strict_sorted_iff by blast
  have M: "set ?m = ?M" by (simp only: zadd_set scoreMembers_appended)
  have "set ?t = {e \<in> set ?m. card {x \<in> set ?m. e < x} < 500}"
    using top_of_sorted [OF ss, of 500] by simp
  then have t: "set ?t = {e \<in> ?M. card {x \<in> ?M. e < x} < 500}" unfolding M .
  have z: "set ?z = liveTop ?M (now (length sections))"
    unfolding liveTop_def using t by (auto simp: zremrangebyscore_def)
  have st: "sorted ?t" using sm by (rule sorted_wrt_drop)
  have sz: "sorted ?z" using st by (simp add: zremrangebyscore_def sorted_wrt_filter)
  have "distinct ?t" using dd by (rule distinct_drop)
  then have dz: "distinct ?z" by (simp add: zremrangebyscore_def)
  have "sorted_list_of_set (set ?z) = ?z" using sz dz by (rule sorted_list_of_set.idem_if_sorted_distinct)
  then have eq: "?z = sorted_list_of_set (liveTop ?M (now (length sections)))" unfolding z by (rule sym)
  from expire_suffix [OF sm, of "now (length sections)"] obtain pre where
    pre: "?m = pre @ ?L" "\<forall>e\<in>set pre. fst e \<le> now (length sections)" by blast
  have "\<forall>e\<in>set ?L. \<not> fst e \<le> now (length sections)" by (simp add: zremrangebyscore_def)
  with pre have len: "length ?z = min 500 (length ?L)" by (rule trim_expire_length)
  have "distinct ?L" using dd by (simp add: zremrangebyscore_def)
  then have "length ?L = card (set ?L)" by (simp add: distinct_card)
  also have "set ?L = {e \<in> ?M. now (length sections) < fst e}"
    unfolding M [symmetric] by (auto simp: zremrangebyscore_def)
  finally have cl: "length ?z = min 500 (card {e \<in> ?M. now (length sections) < fst e})"
    using len by simp
  let ?r' = "r(?key := ?z)"
  have k: "?r' ?key = ?z" by simp
  show ?thesis
    apply (rule exI [of _ ?r'])
    apply (intro conjI)
      apply (rule append_store)
     apply (simp only: k)
     apply (rule eq)
    apply (simp only: k)
    apply (rule cl)
    done
qed

text \<open>
  C8. Start from a well-formed per-user sorted set and run any sequence of appends, then
  one more, of \<open>sections\<close> with the clock \<open>now\<close>. Let \<open>M\<close> be the contents after
  the insertion of that last append: the entries that were in the store whose member is
  not appended, and each appended member with the rank-score of its last occurrence. The
  store then holds, in ascending rank, exactly the entries of \<open>M\<close> that have fewer than
  500 entries of \<open>M\<close> above them and a rank-score above the time read for the expiry
  command. Their number is the smaller of 500 and the number of entries of \<open>M\<close> with a
  rank-score above that time: they are the 500 highest live entries when more than 500
  are live, and every entry with a rank-score at or below that time is gone. A retrieval
  with no ceiling and a negative limit or a limit of at least 500 returns all of them,
  highest first; a retrieval with any limit and any ceiling returns at most 500 entries.
\<close>

theorem feed_capacity:
  assumes "validZset (r (redisKey userId))"
  shows "\<exists>r1 r2.
      appendAll stringify userId (Some r) calls = Some r1 \<and>
      appendAll stringify userId (Some r) (calls @ [(now, sections)]) = Some r2 \<and>
      r2 (redisKey userId) =
        sorted_list_of_set
          (liveTop (insertedSet (r1 (redisKey userId)) (appendedEntries stringify now sections))
             (now (length sections))) \<and>
      length (r2 (redisKey userId)) =
        min 500 (card {e \<in> insertedSet (r1 (redisKey userId)) (appendedEntries stringify now sections).
                         now (length sections) < fst e}) \<and>
      (\<forall>limit. limit < 0 \<or> 500 \<le> limit \<longrightarrow>
          getJustReadFeedSections parse (Some r2) userId limit None =
            Inr (map (\<lambda>e. \<lparr>entry_member = parse (snd e), entry_score = fst e\<rparr>)
                   (rev (r2 (redisKey userId))))) \<and>
      (\<forall>limit maxScore. \<exists>entries.
          getJustReadFeedSections parse (Some r2) userId limit maxScore = Inr entries \<and>
          length entries \<le> 500)"
proof -
  let ?key = "redisKey userId"
  from appendAll_valid [where r = r and userId = userId and stringify = stringify
      and calls = calls, OF assms] obtain r1 where
    r1: "appendAll stringify userId (Some r) calls = Some r1" "validZset (r1 ?key)"
    by blast
  from append_exact [where r = r1 and userId = userId and stringify = stringify and now = now
      and sections = sections, OF r1(2)] obtain r2 where
    r2: "appendSectionsToFeed stringify now (Some r1) userId sections = (Inr (), Some r2)"
        "r2 ?key = sorted_list_of_set
          (liveTop (insertedSet (r1 ?key) (appendedEntries stringify now sections))
             (now (length sections)))"
        "length (r2 ?key) =
           min 500 (card {e \<in> insertedSet (r1 ?key) (appendedEntries stringify now sections).
                            now (length sections) < fst e})"
    by blast
  have le: "length (r2 ?key) \<le> 500" unfolding r2(3) by simp
  have seq: "appendAll stringify userId (Some r) (calls @ [(now, sections)]) = Some r2"
    by (simp add: appendAll_append r1(1) r2(1))
  have all: "\<forall>limit. limit < 0 \<or> 500 \<le> limit \<longrightarrow>
          getJustReadFeedSections parse (Some r2) userId limit None =
            Inr (map (\<lambda>e. \<lparr>entry_member = parse (snd e), entry_score = fst e\<rparr>) (rev (r2 ?key)))"
  proof (intro allI impI)
    fix limit :: int assume l: "limit < 0 \<or> 500 \<le> limit"
    have "zrevrangebyscore (r2 ?key) None limit = rev (r2 ?key)"
    proof (cases "limit < 0")
      case True
      then show ?thesis by (simp add: zrevrangebyscore_def)
    next
      case False
      with l le have "length (rev (r2 ?key)) \<le> nat limit" by simp
      with False show ?thesis unfolding zrevrangebyscore_def Let_def by (simp del: length_rev)
    qed
    then show "getJustReadFeedSections parse (Some r2) userId limit None =
            Inr (map (\<lambda>e. \<lparr>entry_member = parse (snd e), entry_score = fst e\<rparr>) (rev (r2 ?key)))"
      by (simp add: getJustReadFeedSections_def Let_def)
  qed
  have get: "\<forall>limit maxScore. \<exists>entries.
          getJustReadFeedSections parse (Some r2) userId limit maxScore = Inr entries \<and>
          length entries \<le> 500"
  proof (intro allI)
    fix limit :: int and maxScore :: "int option"
    let ?mx = "case maxScore of None \<Rightarrow> None | Some m \<Rightarrow> if m = 0 then None else Some (m - 1)"
    have "length (zrevrangebyscore (r2 ?key) ?mx limit) \<le> 500"
      using retrieve_length [of "r2 ?key" ?mx limit] le by simp
    then show "\<exists>entries.
          getJustReadFeedSections parse (Some r2) userId limit maxScore = Inr entries \<and>
          length entries \<le> 500"
      by (simp add: getJustReadFeedSections_def Let_def)
  qed
  show ?thesis
    by (rule exI [of _ r1], rule exI [of _ r2]) (intro conjI r1(1) seq r2(2,3) all get)
qed


text \<open>
  Two examples: a second append more than 24 hours after the first, which expires the
  first entry; one append of 501 sections, which drops the lowest of them.
\<close>

lemma append_to_empty:
  assumes "distinct (map stringify sections)"
    and "\<forall>i j. i \<le> j \<longrightarrow> now i \<le> now j"
    and "now (length sections) < now 0 + 86400000"
    and "r (redisKey userId) = []"
  shows "appendSectionsToFeed stringify now (Some r) userId sections =
           (Inr (), Some (r(redisKey userId :=
              drop (length sections - 500) (scoreMembers stringify now sections))))"
proof -
  let ?key = "redisKey userId"
  let ?sm = "scoreMembers stringify now sections"
  let ?t = "drop (length sections - 500) ?sm"
  have dist: "distinct (map snd ?sm)" unfolding scoreMembers_members by (rule assms(1))
  have add: "zadd (r ?key) ?sm = ?sm"
    using zadd_fresh [of "[]" ?sm] scoreMembers_increasing [OF assms(2)] dist assms(4) by simp
  have live: "\<forall>e\<in>set ?sm. \<not> fst e \<le> now (length sections)"
  proof
    fix e assume "e \<in> set ?sm"
    then obtain i where i: "i < length sections" "e = ?sm ! i"
      by (auto simp: in_set_conv_nth)
    from assms(2) have "now 0 \<le> now i" by simp
    with assms(3) i show "\<not> fst e \<le> now (length sections)"
      by (simp add: scoreMembers_nth)
  qed
  have "\<forall>e\<in>set ?t. \<not> fst e \<le> now (length sections)"
    using live by (auto dest: in_set_dropD)
  then have keep: "zremrangebyscore ?t (now (length sections)) = ?t"
    by (simp add: zremrangebyscore_def)
  show ?thesis unfolding append_store add using keep by simp
qed

lemma exMany_length: "length exMany = 501"
  by (simp add: exMany_def)

lemma exMany_nth: "i < 501 \<Longrightarrow> exMany ! i = exSectionN i"
  unfolding exMany_def by (simp del: upt_Suc)

lemma exMany_members: "distinct (map exStringify exMany)"
proof -
  have "inj (\<lambda>n. exStringify (exSectionN n))"
  proof (rule injI)
    fix a b assume "exStringify (exSectionN a) = exStringify (exSectionN b)"
    then have "length (exStringify (exSectionN a)) = length (exStringify (exSectionN b))" by simp
    then show "a = b" by (simp add: exStringify_def exSectionN_def)
  qed
  then have "distinct (map (\<lambda>n. exStringify (exSectionN n)) [0..<501])"
    by (simp add: distinct_map inj_on_def del: upt_Suc)
  then show ?thesis by (simp add: exMany_def comp_def del: upt_Suc)
qed

lemma ex_append_many:
  "appendAll exStringify ''u'' (Some exRedis) ([] @ [(exNow 1000, exMany)]) =
     Some (exRedis(redisKey ''u'' := drop 1 (scoreMembers exStringify (exNow 1000) exMany)))"
proof -
  have h3: "exNow 1000 (length exMany) < exNow 1000 0 + 86400000"
    by (simp add: exMany_length exNow_def)
  have h4: "exRedis (redisKey ''u'') = []" by (simp add: exRedis_def)
  from append_to_empty [where stringify = exStringify and sections = exMany and now = "exNow 1000"
      and r = exRedis and userId = "''u''", OF exMany_members ex_now_mono h3 h4]
  show ?thesis by (simp add: exMany_length)
qed

lemma ex_append_expiry:
  "appendAll exStringify ''u'' (Some exRedis) [(exNow 1000, [exSectionA])] =
     Some (exRedis(redisKey ''u'' := [(86401000, exStringify exSectionA)]))"
  "appendAll exStringify ''u'' (Some exRedis)
       ([(exNow 1000, [exSectionA])] @ [(exNow 90000000, [exSectionB])]) =
     Some (exRedis(redisKey ''u'' := [(176400000, exStringify exSectionB)]))"
  by (simp_all add: store_defs Let_def)

theorem feed_capacity_witness:
  "validZset (exRedis (redisKey ''u'')) \<and>
   appendAll exStringify ''u'' (Some exRedis) [(exNow 1000, [exSectionA])] =
     Some (exRedis(redisKey ''u'' := [(86401000, exStringify exSectionA)])) \<and>
   exNow 90000000 (length [exSectionB]) = 90000001 \<and>
   appendAll exStringify ''u'' (Some exRedis)
       ([(exNow 1000, [exSectionA])] @ [(exNow 90000000, [exSectionB])]) =
     Some (exRedis(redisKey ''u'' := [(176400000, exStringify exSectionB)])) \<and>
   getJustReadFeedSections exParse
       (Some (exRedis(redisKey ''u'' := [(176400000, exStringify exSectionB)]))) ''u'' (- 1) None =
     Inr [\<lparr>entry_member = exSectionB, entry_score = 176400000\<rparr>] \<and>
   length exMany = 501 \<and>
   (\<exists>store.
      appendAll exStringify ''u'' (Some exRedis) ([] @ [(exNow 1000, exMany)]) = Some store \<and>
      store (redisKey ''u'') = drop 1 (appendedEntries exStringify (exNow 1000) exMany) \<and>
      length (store (redisKey ''u'')) = 500 \<and>
      appendedEntries exStringify (exNow 1000) exMany ! 0 = (86401000, exStringify (exSectionN 0)) \<and>
      (86401000, exStringify (exSectionN 0)) \<notin> set (store (redisKey ''u'')) \<and>
      hd (store (redisKey ''u'')) = (86401002, exStringify (exSectionN 1)) \<and>
      last (store (redisKey ''u'')) = (86402000, exStringify (exSectionN 500)) \<and>
      (\<exists>entries. getJustReadFeedSections exParse (Some store) ''u'' 1000 None = Inr entries \<and>
         length entries = 500))"
proof -
  let ?key = "redisKey ''u''"
  have h: "validZset (exRedis ?key)" by (simp add: exRedis_def validZset_def)
  from feed_capacity [where r = exRedis and userId = "''u''" and stringify = exStringify
      and calls = "[(exNow 1000, [exSectionA])]" and now = "exNow 90000000"
      and sections = "[exSectionB]" and parse = exParse, OF h]
  obtain r2 where
    a: "appendAll exStringify ''u'' (Some exRedis)
          ([(exNow 1000, [exSectionA])] @ [(exNow 90000000, [exSectionB])]) = Some r2"
      "\<forall>limit. limit < 0 \<or> 500 \<le> limit \<longrightarrow>
          getJustReadFeedSections exParse (Some r2) ''u'' limit None =
            Inr (map (\<lambda>e. \<lparr>entry_member = exParse (snd e), entry_score = fst e\<rparr>) (rev (r2 ?key)))"
    by blast
  from a(1) have ra: "r2 = exRedis(?key := [(176400000, exStringify exSectionB)])"
    unfolding ex_append_expiry(2) by simp
  from a(2) have "getJustReadFeedSections exParse (Some r2) ''u'' (- 1) None =
      Inr (map (\<lambda>e. \<lparr>entry_member = exParse (snd e), entry_score = fst e\<rparr>) (rev (r2 ?key)))"
    by simp
  then have ga: "getJustReadFeedSections exParse
       (Some (exRedis(?key := [(176400000, exStringify exSectionB)]))) ''u'' (- 1) None =
     Inr [\<lparr>entry_member = exSectionB, entry_score = 176400000\<rparr>]"
    unfolding ra by (simp add: ex_parse)
  let ?sm = "appendedEntries exStringify (exNow 1000) exMany"
  let ?store = "exRedis(?key := drop 1 ?sm)"
  from feed_capacity [where r = exRedis and userId = "''u''" and stringify = exStringify
      and calls = "[]" and now = "exNow 1000" and sections = exMany and parse = exParse, OF h]
  obtain s2 where
    b: "appendAll exStringify ''u'' (Some exRedis) ([] @ [(exNow 1000, exMany)]) = Some s2"
      "\<forall>limit. limit < 0 \<or> 500 \<le> limit \<longrightarrow>
          getJustReadFeedSections exParse (Some s2) ''u'' limit None =
            Inr (map (\<lambda>e. \<lparr>entry_member = exParse (snd e), entry_score = fst e\<rparr>) (rev (s2 ?key)))"
    by blast
  from b(1) have sb: "s2 = ?store"
    unfolding ex_append_many scoreMembers_appended by simp
  have k: "?store ?key = drop 1 ?sm" by simp
  have len: "length ?sm = 501" by (simp add: appendedEntries_def exMany_length)
  have l5: "length (drop 1 ?sm) = 500" using len by simp
  have n0: "?sm ! 0 = (86401000, exStringify (exSectionN 0))"
    unfolding appendedEntries_def by (simp add: exMany_length exMany_nth exNow_def del: upt_Suc)
  have n1: "?sm ! 1 = (86401002, exStringify (exSectionN 1))"
    unfolding appendedEntries_def by (simp add: exMany_length exMany_nth exNow_def del: upt_Suc)
  have n500: "?sm ! 500 = (86402000, exStringify (exSectionN 500))"
    unfolding appendedEntries_def by (simp add: exMany_length exMany_nth exNow_def del: upt_Suc)
  have hd1: "hd (drop 1 ?sm) = (86401002, exStringify (exSectionN 1))"
    using len n1 by (simp add: hd_drop_conv_nth)
  have "last (drop 1 ?sm) = ?sm ! 500" using len by (simp add: last_conv_nth)
  then have la: "last (drop 1 ?sm) = (86402000, exStringify (exSectionN 500))" using n500 by simp
  have "distinct (map snd ?sm)"
    unfolding scoreMembers_appended [symmetric] scoreMembers_members by (rule exMany_members)
  then have "distinct ?sm" by (simp add: distinct_map)
  moreover have "?sm = ?sm ! 0 # drop 1 ?sm"
    using len by (cases ?sm) simp_all
  ultimately have "?sm ! 0 \<notin> set (drop 1 ?sm)" by (metis distinct.simps(2))
  then have gone: "(86401000, exStringify (exSectionN 0)) \<notin> set (drop 1 ?sm)" unfolding n0 .
  from b(2) have "getJustReadFeedSections exParse (Some s2) ''u'' 1000 None =
      Inr (map (\<lambda>e. \<lparr>entry_member = exParse (snd e), entry_score = fst e\<rparr>) (rev (s2 ?key)))"
    by simp
  then have ge: "\<exists>entries. getJustReadFeedSections exParse (Some ?store) ''u'' 1000 None = Inr entries \<and>
         length entries = 500"
    unfolding sb k using l5 by simp
  have b1: "appendAll exStringify ''u'' (Some exRedis) ([] @ [(exNow 1000, exMany)]) = Some ?store"
    using b(1) unfolding sb .
  have many: "\<exists>store.
      appendAll exStringify ''u'' (Some exRedis) ([] @ [(exNow 1000, exMany)]) = Some store \<and>
      store ?key = drop 1 ?sm \<and>
      length (store ?key) = 500 \<and>
      ?sm ! 0 = (86401000, exStringify (exSectionN 0)) \<and>
      (86401000, exStringify (exSectionN 0)) \<notin> set (store ?key) \<and>
      hd (store ?key) = (86401002, exStringify (exSectionN 1)) \<and>
      last (store ?key) = (86402000, exStringify (exSectionN 500)) \<and>
      (\<exists>entries. getJustReadFeedSections exParse (Some store) ''u'' 1000 None = Inr entries \<and>
         length entries = 500)"
  proof (rule exI [of _ ?store])
    show "appendAll exStringify ''u'' (Some exRedis) ([] @ [(exNow 1000, exMany)]) = Some ?store \<and>
      ?store ?key = drop 1 ?sm \<and>
      length (?store ?key) = 500 \<and>
      ?sm ! 0 = (86401000, exStringify (exSectionN 0)) \<and>
      (86401000, exStringify (exSectionN 0)) \<notin> set (?store ?key) \<and>
      hd (?store ?key) = (86401002, exStringify (exSectionN 1)) \<and>
      last (?store ?key) = (86402000, exStringify (exSectionN 500)) \<and>
      (\<exists>entries. getJustReadFeedSections exParse (Some ?store) ''u'' 1000 None = Inr entries \<and>
         length entries = 500)"
      unfolding k by (intro conjI b1 refl l5 n0 gone hd1 la ge)
  qed
  have t: "exNow 90000000 (length [exSectionB]) = 90000001" by (simp add: exNow_def)
  show ?thesis
    by (intro conjI h ex_append_expiry(1) ex_append_expiry(2) t ga exMany_length many)
qed

section \<open>Feed Store: round trip\<close>

lemma entries_of_members:
  assumes "\<forall>s\<in>set sections. parse (stringify s) = s"
  shows "map (\<lambda>e. \<lparr>entry_member = parse (snd e), entry_score = fst e\<rparr>)
           (scoreMembers stringify now sections) = feedEntries now sections"
proof (rule nth_equalityI)
  show "length (map (\<lambda>e. \<lparr>entry_member = parse (snd e), entry_score = fst e\<rparr>)
           (scoreMembers stringify now sections)) = length (feedEntries now sections)"
    by (simp add: feedEntries_def)
next
  fix i assume "i < length (map (\<lambda>e. \<lparr>entry_member = parse (snd e), entry_score = fst e\<rparr>)
           (scoreMembers stringify now sections))"
  then have i: "i < length sections" by simp
  then have "parse (stringify (sections ! i)) = sections ! i" using assms by simp
  with i show "map (\<lambda>e. \<lparr>entry_member = parse (snd e), entry_score = fst e\<rparr>)
           (scoreMembers stringify now sections) ! i = feedEntries now sections ! i"
    by (simp add: scoreMembers_nth feedEntries_def nth_enumerate_eq)
qed

text \<open>
  C7 (as amended). Append pairwise distinct sections, which \<open>JSON.parse\<close> reads back
  from their \<open>JSON.stringify\<close> text, to the empty store of a user, with a clock that
  does not run backwards during the call and advances by less than 24 hours. A retrieval
  with no ceiling and a limit of at least the number appended returns the last 500 of
  them (all of them when they are at most 500), in reverse append order, the section
  appended at index \<open>i\<close> paired with its rank-score \<open>now i + i + 86400000\<close>.
\<close>

theorem feed_roundtrip:
  assumes "distinct sections"
    and "\<forall>s\<in>set sections. parse (stringify s) = s"
    and "\<forall>i j. i \<le> j \<longrightarrow> now i \<le> now j"
    and "now (length sections) < now 0 + 86400000"
    and "r (redisKey userId) = []"
    and "int (length sections) \<le> limit"
  shows "\<exists>r'. appendSectionsToFeed stringify now (Some r) userId sections = (Inr (), Some r') \<and>
           getJustReadFeedSections parse (Some r') userId limit None =
             Inr (rev (drop (length sections - 500) (feedEntries now sections))) \<and>
           (length sections \<le> 500 \<longrightarrow>
              getJustReadFeedSections parse (Some r') userId limit None =
                Inr (rev (feedEntries now sections)))"
proof -
  let ?key = "redisKey userId"
  let ?sm = "scoreMembers stringify now sections"
  let ?t = "drop (length sections - 500) ?sm"
  have inj: "inj_on stringify (set sections)"
  proof (rule inj_onI)
    fix a b assume ab: "a \<in> set sections" "b \<in> set sections" "stringify a = stringify b"
    then have "parse (stringify a) = parse (stringify b)" by simp
    with assms(2) ab(1,2) show "a = b" by simp
  qed
  have dist: "distinct (map snd ?sm)"
    unfolding scoreMembers_members using assms(1) inj by (simp add: distinct_map)
  have add: "zadd (r ?key) ?sm = ?sm"
    using zadd_fresh [of "[]" ?sm] scoreMembers_increasing [OF assms(3)] dist assms(5) by simp
  have live: "\<forall>e\<in>set ?sm. \<not> fst e \<le> now (length sections)"
  proof
    fix e assume "e \<in> set ?sm"
    then obtain i where i: "i < length sections" "e = ?sm ! i"
      by (auto simp: in_set_conv_nth)
    from assms(3) have "now 0 \<le> now i" by simp
    with assms(4) i show "\<not> fst e \<le> now (length sections)"
      by (simp add: scoreMembers_nth)
  qed
  have "\<forall>e\<in>set ?t. \<not> fst e \<le> now (length sections)"
    using live by (auto dest: in_set_dropD)
  then have keep: "zremrangebyscore ?t (now (length sections)) = ?t"
    by (simp add: zremrangebyscore_def)
  let ?r' = "r(?key := ?t)"
  have app: "appendSectionsToFeed stringify now (Some r) userId sections = (Inr (), Some ?r')"
    unfolding append_store add using keep by simp
  have "int (length ?t) \<le> limit" using assms(6) by simp
  then have "\<not> limit < 0" "length (rev ?t) \<le> nat limit" by simp_all
  then have "zrevrangebyscore ?t None limit = rev ?t"
    unfolding zrevrangebyscore_def Let_def by (simp del: length_rev length_drop)
  then have "getJustReadFeedSections parse (Some ?r') userId limit None =
      Inr (rev (drop (length sections - 500)
        (map (\<lambda>e. \<lparr>entry_member = parse (snd e), entry_score = fst e\<rparr>) ?sm)))"
    by (simp add: getJustReadFeedSections_def Let_def rev_map drop_map)
  then have get: "getJustReadFeedSections parse (Some ?r') userId limit None =
      Inr (rev (drop (length sections - 500) (feedEntries now sections)))"
    unfolding entries_of_members [OF assms(2)] .
  have small: "length sections \<le> 500 \<longrightarrow>
      getJustReadFeedSections parse (Some ?r') userId limit None = Inr (rev (feedEntries now sections))"
  proof
    assume "length sections \<le> 500"
    then have d: "length sections - 500 = 0" by simp
    show "getJustReadFeedSections parse (Some ?r') userId limit None =
        Inr (rev (feedEntries now sections))"
      using get unfolding d by simp
  qed
  show ?thesis by (rule exI [of _ ?r']) (intro conjI app get small)
qed

theorem feed_roundtrip_witness:
  "distinct [exSectionA, exSectionB] \<and>
   exNow 1000 (length [exSectionA, exSectionB]) < exNow 1000 0 + 86400000 \<and>
   exRedis (redisKey ''u'') = [] \<and> int (length [exSectionA, exSectionB]) \<le> 10 \<and>
   getJustReadFeedSections exParse
     (snd (appendSectionsToFeed exStringify (exNow 1000) (Some exRedis) ''u'' [exSectionA, exSectionB]))
     ''u'' 10 None =
   Inr [\<lparr>entry_member = exSectionB, entry_score = 86401002\<rparr>,
        \<lparr>entry_member = exSectionA, entry_score = 86401000\<rparr>]"
proof -
  have h1: "distinct [exSectionA, exSectionB]" by (simp add: exSectionA_def exSectionB_def)
  have h2: "\<forall>s\<in>set [exSectionA, exSectionB]. exParse (exStringify s) = s" by (simp add: ex_parse)
  have h4: "exNow 1000 (length [exSectionA, exSectionB]) < exNow 1000 0 + 86400000"
    by (simp add: exNow_def)
  have h5: "exRedis (redisKey ''u'') = []" by (simp add: exRedis_def)
  have h6: "int (length [exSectionA, exSectionB]) \<le> 10" by simp
  have e: "rev (drop (length [exSectionA, exSectionB] - 500) (feedEntries (exNow 1000) [exSectionA, exSectionB]))
     = [\<lparr>entry_member = exSectionB, entry_score = 86401002\<rparr>,
        \<lparr>entry_member = exSectionA, entry_score = 86401000\<rparr>]"
    by (simp add: feedEntries_def exNow_def enumerate_eq_zip)
  from feed_roundtrip [where sections = "[exSectionA, exSectionB]" and parse = exParse
      and stringify = exStringify and now = "exNow 1000" and r = exRedis and userId = "''u''"
      and limit = 10, OF h1 h2 ex_now_mono h4 h5 h6]
  show ?thesis unfolding e using h1 h4 h5 h6 by auto
qed

text \<open>
  The claim as stated fails for a list that holds a section twice: a sorted set keeps one
  entry for the member, with the later score, so one entry comes back, not two.
\<close>

theorem feed_roundtrip_duplicate_counterexample:
  "getJustReadFeedSections exParse
     (snd (appendSectionsToFeed exStringify (exNow 1000) (Some exRedis) ''u'' [exSectionA, exSectionA]))
     ''u'' 10 None =
   Inr [\<lparr>entry_member = exSectionA, entry_score = 86401002\<rparr>] \<and>
   rev (feedEntries (exNow 1000) [exSectionA, exSectionA]) =
     [\<lparr>entry_member = exSectionA, entry_score = 86401002\<rparr>,
      \<lparr>entry_member = exSectionA, entry_score = 86401000\<rparr>]"
proof -
  have "appendSectionsToFeed exStringify (exNow 1000) (Some exRedis) ''u'' [exSectionA, exSectionA]
       = (Inr (), Some (exRedis(redisKey ''u'' := [(86401002, exStringify exSectionA)])))"
    by (simp add: store_defs Let_def)
  then have "getJustReadFeedSections exParse
     (snd (appendSectionsToFeed exStringify (exNow 1000) (Some exRedis) ''u'' [exSectionA, exSectionA]))
     ''u'' 10 None = Inr [\<lparr>entry_member = exSectionA, entry_score = 86401002\<rparr>]"
    by (simp add: getJustReadFeedSections_def zrevrangebyscore_def Let_def ex_parse)
  moreover have "rev (feedEntries (exNow 1000) [exSectionA, exSectionA]) =
     [\<lparr>entry_member = exSectionA, entry_score = 86401002\<rparr>,
      \<lparr>entry_member = exSectionA, entry_score = 86401000\<rparr>]"
    by (simp add: feedEntries_def exNow_def enumerate_eq_zip)
  ultimately show ?thesis by simp
qed

text \<open>
  The hypothesis on the clock is needed: \<open>Date.now()\<close> is read again for every section,
  and when the wall clock is set back by 10 ms between two readings the second section
  gets the lower rank-score and comes back last.
\<close>

lemma feed_roundtrip_clock_set_back:
  "getJustReadFeedSections exParse
     (snd (appendSectionsToFeed exStringify (\<lambda>k. if k = 0 then 1000 else 990) (Some exRedis) ''u''
        [exSectionA, exSectionB]))
     ''u'' 10 None =
   Inr [\<lparr>entry_member = exSectionA, entry_score = 86401000\<rparr>,
        \<lparr>entry_member = exSectionB, entry_score = 86400991\<rparr>]"
proof -
  have "appendSectionsToFeed exStringify (\<lambda>k. if k = 0 then 1000 else 990) (Some exRedis) ''u''
          [exSectionA, exSectionB]
       = (Inr (), Some (exRedis(redisKey ''u'' :=
            [(86400991, exStringify exSectionB), (86401000, exStringify exSectionA)])))"
    by (simp add: store_defs Let_def)
  then show ?thesis
    by (simp add: getJustReadFeedSections_def zrevrangebyscore_def Let_def ex_parse)
qed

section \<open>The job: empty ranking\<close>

lemma rankCandidates_empty:
  assumes "snd (rankCandidates sv userId candidates) = Inr []"
  shows "candidates = []"
proof (cases "length candidates \<le> 10")
  case True
  with assms show ?thesis by (simp add: rankCandidates_def)
next
  case False
  with assms obtain newScores where
    "arraySort (compareScores (mergedScores candidates newScores)) candidates = []"
    by (auto simp: rankCandidates_def Let_def split: sum.splits)
  then have "length (arraySort (compareScores (mergedScores candidates newScores)) candidates) = 0"
    by simp
  then show ?thesis by simp
qed

text \<open>
  C9. When the user exists, the Selector returns and the Ranker returns an empty list, then
  the Selector's list was empty and no scoring request was sent, and the job resolves
  without an error and leaves the Redis contents as they were (also when the Redis client
  is not available: the store is not reached).
\<close>

theorem job_empty_ranking:
  assumes "findActiveUser sv userId = Inr (Some user)"
    and "selectCandidates sv user = Inr candidates"
    and "snd (rankCandidates sv userId candidates) = Inr []"
  shows "candidates = [] \<and> fst (rankCandidates sv userId candidates) = [] \<and>
         updateJustReadFeed sv stringify now redisClient userId = (Inr (), redisClient)"
proof -
  have e: "candidates = []" using assms(3) by (rule rankCandidates_empty)
  then have "fst (rankCandidates sv userId candidates) = []" by (simp add: rankCandidates_def)
  moreover have "updateJustReadFeed sv stringify now redisClient userId = (Inr (), redisClient)"
    using assms by (simp add: updateJustReadFeed_def)
  ultimately show ?thesis using e by simp
qed

lemma ex_select_none: "selectCandidates (exServices 0 0) \<lparr>u_id = ''u''\<rparr> = Inr []"
  by (simp add: selectCandidates_def exServices_def Let_def)

theorem job_empty_ranking_witness:
  "findActiveUser (exServices 0 0) ''u'' = Inr (Some \<lparr>u_id = ''u''\<rparr>) \<and>
   selectCandidates (exServices 0 0) \<lparr>u_id = ''u''\<rparr> = Inr [] \<and>
   snd (rankCandidates (exServices 0 0) ''u'' []) = Inr [] \<and>
   fst (rankCandidates (exServices 0 0) ''u'' []) = [] \<and>
   updateJustReadFeed (exServices 0 0) exStringify (exNow 1000) (Some exStore) ''u'' =
     (Inr (), Some exStore)"
proof -
  have h1: "findActiveUser (exServices 0 0) ''u'' = Inr (Some \<lparr>u_id = ''u''\<rparr>)"
    by (simp add: exServices_def)
  have h3: "snd (rankCandidates (exServices 0 0) ''u'' []) = Inr []"
    by (simp add: rankCandidates_def)
  from job_empty_ranking [OF h1 ex_select_none h3] h1 ex_select_none h3 show ?thesis by simp
qed

end
